theory Spec2Isabelle
  imports Complex_Main "HOL-Library.AList" "HOL-Library.Log_Nat"
begin

section \<open>JavaScript values and library functions used by the services\<close>

text \<open>
  Numbers are JavaScript doubles in the source. A finite double is modelled by the rational
  it denotes; a number that may be \<open>NaN\<close> is a \<open>rat option\<close> (or \<open>int option\<close>) with
  \<open>None\<close> for \<open>NaN\<close>. The rounding of double arithmetic is modelled where a property reads
  a rounded value, in \<open>calculateWSJF\<close> (section WSJF, with \<open>to_double\<close> below); elsewhere
  the arithmetic is exact.
\<close>

definition js_round :: "rat \<Rightarrow> int" where
  \<comment> \<open>\<open>Math.round\<close>: nearest integer, ties towards plus infinity.\<close>
  "js_round x = \<lfloor>x + 1 / 2\<rfloor>"

definition lower_char :: "char \<Rightarrow> char" where
  "lower_char c =
     (let n = (of_char c :: nat) in if 65 \<le> n \<and> n \<le> 90 then char_of (n + 32) else c)"

definition toLowerCase :: "string \<Rightarrow> string" where
  \<comment> \<open>\<open>String.prototype.toLowerCase\<close> on the bytes (UTF-8) of the string: the letters
      A to Z are mapped to a to z, every other byte is unchanged. The source compares the
      result with words of the letters c, d, e, l, n, o, r, s, v only, and no character
      outside ASCII has one of these as its lower-case form.\<close>
  "toLowerCase s = map lower_char s"

fun join :: "string \<Rightarrow> string list \<Rightarrow> string" where
  "join sep [] = []"
| "join sep [x] = x"
| "join sep (x # y # ys) = x @ sep @ join sep (y # ys)"

fun digits :: "nat \<Rightarrow> string" where
  "digits n = (if n < 10 then [char_of (48 + n)] else digits (n div 10) @ [char_of (48 + n mod 10)])"

declare digits.simps [simp del]

definition show_int :: "int \<Rightarrow> string" where
  \<comment> \<open>The decimal rendering of an integer inside a template literal.\<close>
  "show_int i = (if i < 0 then CHR ''-'' # digits (nat (- i)) else digits (nat i))"

text \<open>
  A date field of an issue holds an ISO date string or nothing. Two things are done with it:
  it is tested for truthiness, and it is parsed by \<open>new Date(field)\<close>, which yields a time
  value in milliseconds or an invalid date, whose time value is \<open>NaN\<close>. \<open>NoDate\<close> is an
  absent field (\<open>undefined\<close>, \<open>null\<close> after the \<open>|| null\<close> of \<open>buildEpicData\<close>, or
  the empty string), \<open>BadDate\<close> a non-empty string that does not parse, \<open>DateMs t\<close> a string
  that parses to the time value \<open>t\<close>. The only field parsed without a truthiness test is
  \<open>created\<close>, which is \<open>undefined\<close> when it is absent; a field holding \<open>null\<close> would parse
  to the epoch and is not covered by \<open>NoDate\<close>.
\<close>

datatype jsdate = NoDate | BadDate | DateMs int

fun truthy_date :: "jsdate \<Rightarrow> bool" where
  "truthy_date NoDate = False"
| "truthy_date BadDate = True"
| "truthy_date (DateMs t) = True"

fun new_Date :: "jsdate \<Rightarrow> int option" where
  \<comment> \<open>The time value of \<open>new Date(field)\<close>; \<open>None\<close> is \<open>NaN\<close>.\<close>
  "new_Date NoDate = None"
| "new_Date BadDate = None"
| "new_Date (DateMs t) = Some t"

definition js_index :: "'a list \<Rightarrow> int \<Rightarrow> 'a option" where
  \<comment> \<open>\<open>arr[i]\<close> for an integer \<open>i\<close>: \<open>undefined\<close> (\<open>None\<close>) out of range.\<close>
  "js_index arr i = (if 0 \<le> i \<and> i < int (length arr) then Some (arr ! nat i) else None)"

definition ms_per_day :: rat where
  "ms_per_day = 1000 * 60 * 60 * 24"

subsection \<open>Doubles\<close>

text \<open>
  \<open>dbl x\<close> is the double nearest to the rational \<open>x\<close>, ties to the even significand
  (IEEE 754 binary64, round to nearest): 53 significant bits, the exponent of the last
  place not below \<open>-1074\<close> (subnormal numbers). \<open>binade x\<close> is the exponent \<open>e\<close> with
  \<open>2^e \<le> x < 2^(e+1)\<close>. \<open>to_double\<close> adds the overflow: a result of magnitude \<open>2^1024\<close>
  or more is an infinity, which is \<open>None\<close>. The sign of zero is not modelled.
\<close>

definition round_half_even :: "rat \<Rightarrow> int" where
  "round_half_even q =
     (let f = \<lfloor>q\<rfloor>; d = q - of_int f
      in if d < 1 / 2 then f else if 1 / 2 < d then f + 1 else if even f then f else f + 1)"

definition binade :: "rat \<Rightarrow> int" where
  "binade x =
     (let (p, q) = quotient_of x; e = bitlen p - bitlen q
      in if 2 powi e \<le> x then e else e - 1)"

definition dbl :: "rat \<Rightarrow> rat" where
  "dbl x =
     (if x = 0 then 0
      else let a = \<bar>x\<bar>; e = max (binade a) (- 1022); u = 2 powi (e - 52)
           in sgn x * of_int (round_half_even (a / u)) * u)"

definition to_double :: "rat \<Rightarrow> rat option" where
  "to_double x = (let y = dbl x in if y = 0 \<or> binade \<bar>y\<bar> < 1024 then Some y else None)"

text \<open>
  A value of the source that is meant to be a number is a \<open>jsnum\<close>: \<open>Some x\<close> is the finite
  double \<open>x\<close>, and \<open>None\<close> is any other value (\<open>NaN\<close>, an infinity, or a function, an
  object or a string where a number was expected). The operations below are those of the
  source on finite doubles. On the other values they are used only where the result is
  again not a finite number: no infinity is ever a divisor.
\<close>

type_synonym jsnum = "rat option"

definition js_add :: "jsnum \<Rightarrow> jsnum \<Rightarrow> jsnum" where
  "js_add a b = (case (a, b) of (Some x, Some y) \<Rightarrow> to_double (x + y) | _ \<Rightarrow> None)"

definition js_mul :: "jsnum \<Rightarrow> jsnum \<Rightarrow> jsnum" where
  "js_mul a b = (case (a, b) of (Some x, Some y) \<Rightarrow> to_double (x * y) | _ \<Rightarrow> None)"

definition js_div :: "jsnum \<Rightarrow> jsnum \<Rightarrow> jsnum" where
  \<comment> \<open>A finite number divided by zero is an infinity or \<open>NaN\<close>.\<close>
  "js_div a b =
     (case (a, b) of
        (Some x, Some y) \<Rightarrow> if y = 0 then None else to_double (x / y)
      | _ \<Rightarrow> None)"

definition Math_round :: "jsnum \<Rightarrow> jsnum" where
  \<comment> \<open>\<open>Math.round\<close> of a double is computed exactly; the result is a double again.\<close>
  "Math_round a = map_option (\<lambda>x. of_int (js_round x)) a"

definition js_less :: "jsnum \<Rightarrow> rat \<Rightarrow> bool" where
  \<comment> \<open>\<open>a < c\<close> for a constant \<open>c\<close>, where \<open>a\<close> is a finite number or \<open>NaN\<close>.\<close>
  "js_less a c = (case a of Some x \<Rightarrow> x < c | None \<Rightarrow> False)"

section \<open>Data model\<close>

text \<open>A Jira issue as the tracker returns it: an epic or one of its children.\<close>

record jira_issue =
  issue_key :: string
  statusCategoryKey :: "string option"  \<comment> \<open>\<open>fields?.status?.statusCategory?.key\<close>\<close>
  duedate :: jsdate                      \<comment> \<open>\<open>fields?.duedate\<close>\<close>
  created_raw :: jsdate                  \<comment> \<open>\<open>fields?.created\<close>\<close>
  customfield_10061 :: "rat option"      \<comment> \<open>story points\<close>

record link =
  link_key :: string
  link_status :: "string option"

record dependencies =
  blocks :: "link list"
  blockedBy :: "link list"
  relatesTo :: "link list"

record child_progress =
  total :: nat
  done' :: nat  \<comment> \<open>the field \<open>done\<close>\<close>
  inProgress :: nat
  todo :: nat
  totalPoints :: rat
  completedPoints :: rat
  progress :: int

record health_info =
  health :: string
  reason :: string

section \<open>Progress and health of one epic\<close>

definition count_child :: "child_progress \<Rightarrow> jira_issue \<Rightarrow> child_progress" where
  \<comment> \<open>One iteration of the loop over the children.\<close>
  "count_child acc child =
     (let statusCategory = (case statusCategoryKey child of
                              None \<Rightarrow> ''new'' | Some s \<Rightarrow> if s = [] then ''new'' else s);
          points = (case customfield_10061 child of None \<Rightarrow> 0 | Some p \<Rightarrow> p);
          acc = acc\<lparr>totalPoints := totalPoints acc + points\<rparr>
      in if statusCategory = ''done''
         then acc\<lparr>done' := done' acc + 1, completedPoints := completedPoints acc + points\<rparr>
         else if statusCategory = ''indeterminate''
         then acc\<lparr>inProgress := inProgress acc + 1\<rparr>
         else acc\<lparr>todo := todo acc + 1\<rparr>)"

definition no_progress :: child_progress where
  "no_progress = \<lparr>total = 0, done' = 0, inProgress = 0, todo = 0,
                   totalPoints = 0, completedPoints = 0, progress = 0\<rparr>"

definition calculateEpicProgress :: "jira_issue list option \<Rightarrow> child_progress" where
  "calculateEpicProgress children =
     (case children of
        None \<Rightarrow> no_progress
      | Some cs \<Rightarrow>
          if length cs = 0 then no_progress
          else
            let acc = foldl count_child no_progress cs;
                n = length cs
            in acc\<lparr>total := n,
                   progress := (if n > 0 then js_round (of_nat (done' acc) / of_nat n * 100) else 0)\<rparr>)"

definition unresolved :: "link \<Rightarrow> bool" where
  \<comment> \<open>The filter predicate of \<open>unresolvedBlockers\<close>.\<close>
  "unresolved b =
     (let status = toLowerCase (case link_status b of None \<Rightarrow> [] | Some s \<Rightarrow> s)
      in status \<notin> set [''done'', ''closed'', ''resolved''])"

definition calculateEpicHealth ::
  "int \<Rightarrow> jira_issue \<Rightarrow> jira_issue list option \<Rightarrow> dependencies option \<Rightarrow> health_info" where
  \<comment> \<open>The first argument is the time value of \<open>new Date()\<close>.\<close>
  "calculateEpicHealth now epic children deps =
     (if statusCategoryKey epic = Some ''done''
      then \<lparr>health = ''done'', reason = ''Completed''\<rparr>
      else
        let blockedBy' = (case deps of None \<Rightarrow> [] | Some d \<Rightarrow> blockedBy d);
            unresolvedBlockers = filter unresolved blockedBy'
        in if length unresolvedBlockers > 0
           then \<lparr>health = ''blocked'',
                 reason = ''Blocked by '' @ join '', '' (map link_key unresolvedBlockers)\<rparr>
           else
             let dueDate = duedate epic;
                 created = created_raw epic;
                 childProgress = calculateEpicProgress children
             in if \<not> truthy_date dueDate
                then
                  if total childProgress = 0
                  then \<lparr>health = ''no-data'', reason = ''No child issues''\<rparr>
                  else if progress childProgress \<ge> 70
                  then \<lparr>health = ''on-track'', reason = show_int (progress childProgress) @ ''% done''\<rparr>
                  else if progress childProgress \<ge> 30
                  then \<lparr>health = ''on-track'', reason = show_int (progress childProgress) @ ''% done''\<rparr>
                  else \<lparr>health = ''on-track'',
                        reason = show_int (progress childProgress) @ ''% done (no due date)''\<rparr>
                else
                  let start = new_Date created;
                      end' = new_Date dueDate;
                      timeProgress =
                        (case (start, end') of
                           (Some s, Some e) \<Rightarrow>
                             if e - s > 0
                             then js_round (of_int (now - s) / of_int (e - s) * 100)
                             else 100
                         | _ \<Rightarrow> 100);
                      pastDue = (case end' of Some e \<Rightarrow> now > e | None \<Rightarrow> False)
                  in if pastDue \<and> progress childProgress < 100
                     then \<lparr>health = ''at-risk'',
                           reason = ''Overdue ('' @ show_int (progress childProgress) @ ''% done)''\<rparr>
                     else if timeProgress > 0 \<and> progress childProgress < timeProgress - 15
                     then \<lparr>health = ''at-risk'',
                           reason = show_int (progress childProgress) @ ''% done, ''
                                    @ show_int timeProgress @ ''% time elapsed''\<rparr>
                     else \<lparr>health = ''on-track'',
                           reason = show_int (progress childProgress) @ ''% done''\<rparr>)"

section \<open>Evaluated epics\<close>

text \<open>
  The object that \<open>buildEpicData\<close> returns for an epic, restricted to the fields the
  analytics below read. \<open>e_children\<close> is the \<open>children\<close> object (the progress record; its
  \<open>issues\<close> list is never read below). \<open>e_rawFields\<close> is the optional \<open>_rawFields\<close> object
  with its numeric own properties.
\<close>

record epic =
  e_key :: string
  e_summary :: string
  e_status :: string
  e_statusCategory :: string
  e_priority :: string
  e_assignee :: string
  e_created :: jsdate
  e_dueDate :: jsdate
  e_resolutionDate :: jsdate
  e_storyPoints :: rat
  e_parentKey :: "string option"
  e_children :: child_progress
  e_progress :: int
  e_health :: string
  e_rawFields :: "(string \<rightharpoonup> rat) option"

definition or_default :: "string option \<Rightarrow> string \<Rightarrow> string" where
  \<comment> \<open>\<open>x || d\<close> for an optional string: the empty string is falsy.\<close>
  "or_default x d = (case x of None \<Rightarrow> d | Some s \<Rightarrow> if s = [] then d else s)"

section \<open>Aggregation by initiative\<close>













section \<open>WSJF\<close>

record field_mappings =
  fm_businessValue :: "string option"
  fm_timeCriticality :: "string option"
  fm_riskReduction :: "string option"
  fm_jobSize :: "string option"
  fm_moscow :: "string option"

record wsjf =
  businessValue :: jsnum
  timeCriticality :: jsnum
  riskReduction :: jsnum
  jobSize :: jsnum
  costOfDelay :: jsnum
  wsjfScore :: jsnum

definition object_prototype_members :: "string list" where
  \<comment> \<open>The property names every plain object inherits from \<open>Object.prototype\<close>.\<close>
  "object_prototype_members =
     [''constructor'', ''__defineGetter__'', ''__defineSetter__'', ''hasOwnProperty'',
      ''__lookupGetter__'', ''__lookupSetter__'', ''isPrototypeOf'', ''propertyIsEnumerable'',
      ''toString'', ''valueOf'', ''__proto__'', ''toLocaleString'']"

definition raw_field :: "epic \<Rightarrow> string option \<Rightarrow> jsnum" where
  \<comment> \<open>\<open>epic._rawFields?.[name]\<close>; an unmapped name is the key \<open>undefined\<close>. A property
      that is absent yields \<open>undefined\<close>, which is passed on as 0: both are falsy, and the
      value is only used under \<open>||\<close>. A name that is not an own property but is inherited
      from \<open>Object.prototype\<close> yields a function or an object, which is truthy.\<close>
  "raw_field e name =
     (case e_rawFields e of
        None \<Rightarrow> Some 0
      | Some m \<Rightarrow>
          let k = (case name of None \<Rightarrow> ''undefined'' | Some n \<Rightarrow> n)
          in case m k of
               Some v \<Rightarrow> Some v
             | None \<Rightarrow> if k \<in> set object_prototype_members then None else Some 0)"

definition or_num :: "rat \<Rightarrow> rat \<Rightarrow> rat" where
  \<comment> \<open>\<open>a || b\<close> on numbers: zero is falsy.\<close>
  "or_num a b = (if a = 0 then b else a)"

definition priorityScores :: "string \<Rightarrow> jsnum" where
  \<comment> \<open>\<open>priorityScores[p] || 3\<close>. For a name inherited from \<open>Object.prototype\<close> the lookup
      yields a function or an object.\<close>
  "priorityScores p =
     (case map_of [(''Highest'', 5), (''High'', 4), (''Medium'', 3), (''Low'', 2), (''Lowest'', 1)] p of
        Some v \<Rightarrow> Some v
      | None \<Rightarrow> if p \<in> set object_prototype_members then None else Some 3)"

definition calculateWSJF :: "int \<Rightarrow> epic \<Rightarrow> field_mappings option \<Rightarrow> wsjf" where
  \<comment> \<open>The first argument is the time value of \<open>new Date()\<close>.\<close>
  "calculateWSJF now e fieldMappings =
     (let (bv, tc, rr, js) =
        (case fieldMappings of
           Some fm \<Rightarrow>
             (raw_field e (fm_businessValue fm),
              raw_field e (fm_timeCriticality fm),
              raw_field e (fm_riskReduction fm),
              map_option (\<lambda>v. or_num v (or_num (totalPoints (e_children e)) 1))
                (raw_field e (fm_jobSize fm)))
         | None \<Rightarrow>
             let basePriority = priorityScores (e_priority e);
                 childCount = total (e_children e);
                 childBonus = (if childCount \<ge> 20 then 2 else if childCount \<ge> 10 then 3 / 2
                               else if childCount \<ge> 5 then 1 else 1 / 2);
                 progressBonus = (if e_progress e > 50 then 1 / 2 else 0);
                 healthBonus = (if e_health e = ''blocked'' then 1
                                else if e_health e = ''at-risk'' then 1 / 2 else 0);
                 businessValue' =
                   map_option (min 8)
                     (js_div
                        (Math_round
                           (js_mul
                              (js_add (js_add (js_add basePriority (Some childBonus))
                                         (Some progressBonus))
                                 (Some healthBonus))
                              (Some 10)))
                        (Some 10));
                 timeCriticality' =
                   (if truthy_date (e_dueDate e)
                    then
                      let daysUntilDue =
                            js_div (js_add (map_option of_int (new_Date (e_dueDate e)))
                                      (Some (- of_int now)))
                              (Some ms_per_day)
                      in if js_less daysUntilDue 14 then 5 else if js_less daysUntilDue 30 then 4
                         else if js_less daysUntilDue 60 then 3 else if js_less daysUntilDue 90 then 2
                         else 1
                    else 2);
                 riskReduction' = (if e_health e = ''blocked'' then 4
                                   else if e_health e = ''at-risk'' then 3 else 2)
             in (businessValue', Some timeCriticality', Some riskReduction',
                 Some (or_num (totalPoints (e_children e)) (or_num (e_storyPoints e) 1))));
          js = map_option (\<lambda>j. max j (1 / 2)) js;
          cod = js_add (js_add bv tc) rr;
          score = js_div (Math_round (js_mul (js_div cod js) (Some 100))) (Some 100)
      in \<lparr>businessValue = bv, timeCriticality = tc, riskReduction = rr, jobSize = js,
          costOfDelay = cod, wsjfScore = score\<rparr>)"

section \<open>Lead and cycle time\<close>

record lead_detail =
  ld_key :: string
  ld_summary :: string
  ld_created :: jsdate
  ld_resolved :: jsdate
  leadTimeDays :: int

record histogram_bucket =
  hb_range :: string
  hb_start :: int
  hb_end :: int
  hb_count :: nat

record lead_percentiles =
  p50 :: "int option"
  p70 :: "int option"
  p85 :: "int option"
  p95 :: "int option"

record lead_report =
  totalResolved :: nat
  average :: int
  lr_percentiles :: lead_percentiles
  histogram :: "histogram_bucket list"
  lr_epics :: "lead_detail list"

definition is_resolved :: "epic \<Rightarrow> bool" where
  \<comment> \<open>The filter predicate of \<open>resolvedEpics\<close>.\<close>
  "is_resolved e \<longleftrightarrow>
     e_statusCategory e = ''done'' \<and> truthy_date (e_resolutionDate e) \<and> truthy_date (e_created e)"

definition lead_time :: "epic \<Rightarrow> int option" where
  \<comment> \<open>\<open>leadTimeDays\<close>; \<open>None\<close> is \<open>NaN\<close>.\<close>
  "lead_time e =
     (case (new_Date (e_created e), new_Date (e_resolutionDate e)) of
        (Some c, Some r) \<Rightarrow> Some (js_round (of_int (r - c) / ms_per_day))
      | _ \<Rightarrow> None)"

fun lead_details :: "epic list \<Rightarrow> lead_detail list" where
  \<comment> \<open>The loop over \<open>resolvedEpics\<close>: \<open>leadTimes\<close> is the list of the \<open>leadTimeDays\<close> fields
      of \<open>epicDetails\<close>, which is built here.\<close>
  "lead_details [] = []"
| "lead_details (e # es) =
     (case lead_time e of
        Some d \<Rightarrow>
          if d \<ge> 0
          then \<lparr>ld_key = e_key e, ld_summary = e_summary e, ld_created = e_created e,
                ld_resolved = e_resolutionDate e, leadTimeDays = d\<rparr> # lead_details es
          else lead_details es
      | None \<Rightarrow> lead_details es)"

definition percentile :: "int list \<Rightarrow> rat \<Rightarrow> int option" where
  \<comment> \<open>The helper of \<open>calculateEpicLeadCycleTime\<close>.\<close>
  "percentile arr p =
     (if length arr = 0 then Some 0
      else let idx = \<lceil>of_nat (length arr) * p / 100\<rceil> - 1
           in js_index arr (max 0 idx))"

function histogram_loop :: "int \<Rightarrow> int \<Rightarrow> int list \<Rightarrow> histogram_bucket list" where
  "histogram_loop start maxDays sorted' =
     (if start \<le> maxDays
      then let end' = start + 7;
               count = length (filter (\<lambda>d. d \<ge> start \<and> d < end') sorted')
           in \<lparr>hb_range = show_int start @ ''-'' @ show_int end' @ ''d'',
               hb_start = start, hb_end = end', hb_count = count\<rparr>
              # histogram_loop (start + 7) maxDays sorted'
      else [])"
  by pat_completeness auto
termination
  by (relation "measure (\<lambda>(start, maxDays, sorted'). nat (maxDays - start + 1))") auto

declare histogram_loop.simps [simp del]

fun js_insert :: "('a \<Rightarrow> 'a \<Rightarrow> rat) \<Rightarrow> 'a \<Rightarrow> 'a list \<Rightarrow> 'a list" where
  "js_insert cmp x [] = [x]"
| "js_insert cmp x (y # ys) = (if cmp x y \<le> 0 then x # y # ys else y # js_insert cmp x ys)"

definition js_sort :: "('a \<Rightarrow> 'a \<Rightarrow> rat) \<Rightarrow> 'a list \<Rightarrow> 'a list" where
  \<comment> \<open>\<open>Array.prototype.sort\<close> with a comparator, as a stable insertion sort. A comparator
      result of \<open>NaN\<close> counts as zero and is passed as zero; the comparator is then not
      consistent and the order the engine produces may be another one, with the same
      elements. The properties below read the length and the elements, not the order.\<close>
  "js_sort cmp xs = foldr (js_insert cmp) xs []"

definition calculateEpicLeadCycleTime :: "epic list \<Rightarrow> lead_report" where
  "calculateEpicLeadCycleTime epics =
     (let resolvedEpics = filter is_resolved epics;
          epicDetails = lead_details resolvedEpics;
          leadTimes = map leadTimeDays epicDetails;
          sorted' = sort leadTimes;
          avg = (if length sorted' > 0
                 then js_round (of_int (sum_list sorted') / of_nat (length sorted')) else 0);
          histogram' = (if length sorted' > 0 then histogram_loop 0 (last sorted') sorted' else [])
      in \<lparr>totalResolved = length resolvedEpics,
          average = avg,
          lr_percentiles = \<lparr>p50 = percentile sorted' 50, p70 = percentile sorted' 70,
                            p85 = percentile sorted' 85, p95 = percentile sorted' 95\<rparr>,
          histogram = histogram',
          lr_epics = js_sort (\<lambda>a b. of_int (leadTimeDays b - leadTimeDays a)) epicDetails\<rparr>)"

section \<open>Work in progress\<close>

text \<open>
  \<open>wipByAssignee\<close> and \<open>wipByInitiative\<close> are plain objects used as counters. A plain
  object is modelled by the list of its own properties in creation order. A property value
  is a number or, where the counter idiom \<open>(obj[k] || 0) + 1\<close> met a value that is not a
  number, a string (\<open>JText\<close>): reading a name that the object does not own but inherits from
  \<open>Object.prototype\<close> yields a function, and function \<open>+ 1\<close> is a string. The inherited
  \<open>__proto__\<close> is an accessor: reading it yields \<open>Object.prototype\<close>, and assigning a
  string to it does nothing.
\<close>

datatype jsval = JNum nat | JText

type_synonym jsobj = "(string \<times> jsval) list"

definition bump :: "jsobj \<Rightarrow> string \<Rightarrow> jsobj" where
  \<comment> \<open>\<open>obj[k] = (obj[k] || 0) + 1\<close>\<close>
  "bump obj k =
     (case map_of obj k of
        Some (JNum n) \<Rightarrow> AList.update k (JNum (n + 1)) obj
      | Some JText \<Rightarrow> AList.update k JText obj
      | None \<Rightarrow>
          if k = ''__proto__'' then obj
          else if k \<in> set object_prototype_members then AList.update k JText obj
          else AList.update k (JNum 1) obj)"

definition is_digit :: "char \<Rightarrow> bool" where
  "is_digit c \<longleftrightarrow> 48 \<le> (of_char c :: nat) \<and> (of_char c :: nat) \<le> 57"

definition array_index :: "string \<Rightarrow> int option" where
  \<comment> \<open>The number a property name denotes when it is an array index: a decimal numeral
      without leading zero, below \<open>2^32 - 1\<close>.\<close>
  "array_index s =
     (let v = foldl (\<lambda>a c. 10 * a + ((of_char c :: int) - 48)) 0 s
      in if s \<noteq> [] \<and> list_all is_digit s \<and> (length s = 1 \<or> hd s \<noteq> CHR ''0'') \<and> v < 4294967295
         then Some v else None)"

definition Object_entries :: "jsobj \<Rightarrow> (string \<times> jsval) list" where
  \<comment> \<open>Array indices in ascending order first, then the other names in creation order.\<close>
  "Object_entries obj =
     sort_key (\<lambda>p. the (array_index (fst p))) (filter (\<lambda>p. array_index (fst p) \<noteq> None) obj)
     @ filter (\<lambda>p. array_index (fst p) = None) obj"

record name_count =
  nc_name :: string
  nc_count :: jsval

record wip_age =
  wa_key :: string
  wa_summary :: string
  wa_assignee :: string
  ageDays :: "int option"
  wa_health :: string

record wip_report =
  totalWIP :: nat
  wipByAssignee :: "name_count list"
  wipByInitiative :: "name_count list"
  wipAge :: "wip_age list"
  avgAge :: "int option"

text \<open>Of the initiatives, \<open>calculateWIPMetrics\<close> reads the \<open>key\<close> and the \<open>summary\<close>.\<close>

record initiative_name =
  in_key :: string
  in_summary :: string

definition count_cmp :: "name_count \<Rightarrow> name_count \<Rightarrow> rat" where
  \<comment> \<open>\<open>(a, b) => b.count - a.count\<close>\<close>
  "count_cmp a b =
     (case (nc_count a, nc_count b) of
        (JNum x, JNum y) \<Rightarrow> of_nat y - of_nat x
      | _ \<Rightarrow> 0)"

definition age_cmp :: "wip_age \<Rightarrow> wip_age \<Rightarrow> rat" where
  \<comment> \<open>\<open>(a, b) => b.ageDays - a.ageDays\<close>\<close>
  "age_cmp a b =
     (case (ageDays a, ageDays b) of
        (Some x, Some y) \<Rightarrow> of_int (y - x)
      | _ \<Rightarrow> 0)"

definition initiative_name_of :: "initiative_name list option \<Rightarrow> epic \<Rightarrow> string" where
  \<comment> \<open>\<open>initName\<close>\<close>
  "initiative_name_of initiatives e =
     (let parentKey = or_default (e_parentKey e) ''_unlinked''
      in case initiatives of
           None \<Rightarrow> ''Unlinked''
         | Some is \<Rightarrow>
             (case find (\<lambda>i. in_key i = parentKey) is of
                None \<Rightarrow> ''Unlinked''
              | Some i \<Rightarrow> if in_summary i = [] then ''Unlinked'' else in_summary i))"

definition assignee_of :: "epic \<Rightarrow> string" where
  "assignee_of e = (if e_assignee e = [] then ''Unassigned'' else e_assignee e)"

definition wip_counts :: "initiative_name list option \<Rightarrow> epic list \<Rightarrow> jsobj \<times> jsobj" where
  \<comment> \<open>The loop over \<open>wipEpics\<close>; the pair is \<open>(wipByAssignee, wipByInitiative)\<close>.\<close>
  "wip_counts initiatives wipEpics =
     foldl (\<lambda>(byAssignee, byInitiative) e.
              (bump byAssignee (assignee_of e), bump byInitiative (initiative_name_of initiatives e)))
       ([], []) wipEpics"

definition age_of :: "int \<Rightarrow> epic \<Rightarrow> wip_age" where
  "age_of now e =
     \<lparr>wa_key = e_key e, wa_summary = e_summary e, wa_assignee = e_assignee e,
      ageDays = (case new_Date (e_created e) of
                   None \<Rightarrow> None
                 | Some c \<Rightarrow> Some (js_round (of_int (now - c) / ms_per_day))),
      wa_health = e_health e\<rparr>"

fun sum_ages :: "wip_age list \<Rightarrow> int option" where
  \<comment> \<open>The \<open>reduce\<close> of \<open>avgAge\<close>; one \<open>NaN\<close> makes the sum \<open>NaN\<close>.\<close>
  "sum_ages [] = Some 0"
| "sum_ages (a # as) =
     (case (ageDays a, sum_ages as) of (Some x, Some s) \<Rightarrow> Some (x + s) | _ \<Rightarrow> None)"

definition calculateWIPMetrics :: "int \<Rightarrow> epic list \<Rightarrow> initiative_name list option \<Rightarrow> wip_report" where
  \<comment> \<open>The first argument is the time value of \<open>new Date()\<close>.\<close>
  "calculateWIPMetrics now epics initiatives =
     (let wipEpics = filter (\<lambda>e. e_statusCategory e = ''indeterminate'') epics;
          (byAssignee, byInitiative) = wip_counts initiatives wipEpics;
          wipAge' = js_sort age_cmp (map (age_of now) wipEpics);
          entries = (\<lambda>obj. js_sort count_cmp
                       (map (\<lambda>(name, count). \<lparr>nc_name = name, nc_count = count\<rparr>) (Object_entries obj)))
      in \<lparr>totalWIP = length wipEpics,
          wipByAssignee = entries byAssignee,
          wipByInitiative = entries byInitiative,
          wipAge = wipAge',
          avgAge = (if length wipAge' > 0
                    then (case sum_ages wipAge' of
                            None \<Rightarrow> None
                          | Some s \<Rightarrow> Some (js_round (of_int s / of_nat (length wipAge'))))
                    else Some 0)\<rparr>)"

section \<open>Monte Carlo forecast\<close>

text \<open>
  The random source is the sequence of the results of the successive calls of
  \<open>Math.random\<close>, with the number of calls made so far as the state that is passed along.
  \<open>periodToDate\<close> formats a number of months after \<open>new Date()\<close>; the calendar arithmetic
  of the runtime is a parameter. On \<open>undefined\<close> it makes the date invalid, and
  \<open>toISOString\<close> throws a \<open>RangeError\<close>.
\<close>

datatype js_error = RangeError

record throughput_point =
  tp_period :: string
  tp_count :: rat

record percentile_entry =
  pe_periods :: nat
  pe_date :: string
  pe_confidence :: string

record distribution_entry =
  de_periods :: nat
  de_date :: string
  de_probability :: int

record forecast =
  remainingItems :: rat
  simulations :: nat
  avgThroughput :: "rat option"                         \<comment> \<open>absent in the degenerate result\<close>
  fc_percentiles :: "(string \<times> percentile_entry) list"  \<comment> \<open>the object \<open>percentiles\<close>\<close>
  distribution :: "distribution_entry list"
  message :: "string option"                            \<comment> \<open>present in the degenerate result\<close>

function trial_loop :: "(nat \<Rightarrow> rat) \<Rightarrow> rat list \<Rightarrow> rat option \<Rightarrow> nat \<Rightarrow> nat \<Rightarrow> nat \<times> nat" where
  \<comment> \<open>The \<open>while\<close> loop of one trial, from \<open>itemsLeft\<close> (\<open>None\<close> is \<open>NaN\<close>), \<open>periods\<close> and
      the number of random draws made so far; it returns \<open>periods\<close> and the draws made.\<close>
  "trial_loop rnd throughputValues itemsLeft periods drawn =
     (if (case itemsLeft of None \<Rightarrow> False | Some i \<Rightarrow> i > 0) \<and> periods < 100
      then
        let randomIdx = \<lfloor>rnd drawn * of_nat (length throughputValues)\<rfloor>;
            throughput = js_index throughputValues randomIdx;
            itemsLeft = (case (itemsLeft, throughput) of
                           (Some i, Some t) \<Rightarrow> Some (i - t) | _ \<Rightarrow> None)
        in trial_loop rnd throughputValues itemsLeft (periods + 1) (drawn + 1)
      else (periods, drawn))"
  by pat_completeness auto
termination
  by (relation "measure (\<lambda>(rnd, tv, itemsLeft, periods, drawn). 100 - periods)") auto

declare trial_loop.simps [simp del]

fun run_simulations :: "(nat \<Rightarrow> rat) \<Rightarrow> rat list \<Rightarrow> rat \<Rightarrow> nat \<Rightarrow> nat \<Rightarrow> nat list \<times> nat" where
  \<comment> \<open>The \<open>for\<close> loop over the trials still to run: \<open>completionDays\<close> in push order and the
      number of random draws made.\<close>
  "run_simulations rnd tv remaining 0 drawn = ([], drawn)"
| "run_simulations rnd tv remaining (Suc n) drawn =
     (let (periods, drawn) = trial_loop rnd tv (Some remaining) 0 drawn;
          (rest, drawn) = run_simulations rnd tv remaining n drawn
      in (periods # rest, drawn))"

definition percentile_mc :: "nat list \<Rightarrow> rat \<Rightarrow> nat option" where
  \<comment> \<open>The helper \<open>percentile\<close> of \<open>monteCarloForecast\<close>; \<open>None\<close> is \<open>undefined\<close>.\<close>
  "percentile_mc arr p =
     (let idx = \<lceil>of_nat (length arr) * p / 100\<rceil> - 1
      in js_index arr (max 0 idx))"

definition insufficient :: "rat \<Rightarrow> forecast" where
  "insufficient remaining =
     \<lparr>remainingItems = remaining, simulations = 0, avgThroughput = None, fc_percentiles = [],
      distribution = [], message = Some ''Insufficient data for forecast''\<rparr>"

definition monteCarloForecast ::
  "(nat \<Rightarrow> string) \<Rightarrow> (nat \<Rightarrow> rat) \<Rightarrow> nat \<Rightarrow> throughput_point list option \<Rightarrow> rat \<Rightarrow> nat
     \<Rightarrow> (js_error + forecast) \<times> nat" where
  \<comment> \<open>Arguments: \<open>periodToDate\<close>, the random source, the number of random draws made before
      the call, then the three arguments of the source. The second component of the result
      is the number of random draws made after the call.\<close>
  "monteCarloForecast periodToDate rnd drawn historicalThroughput remaining sims =
     (case historicalThroughput of
        None \<Rightarrow> (Inr (insufficient remaining), drawn)
      | Some history \<Rightarrow>
          if length history = 0 \<or> remaining \<le> 0
          then (Inr (insufficient remaining), drawn)
          else
            let throughputValues = map tp_count history;
                (pushed, drawn) = run_simulations rnd throughputValues remaining sims drawn;
                completionDays = sort pushed
            in (case (percentile_mc completionDays 50, percentile_mc completionDays 85,
                      percentile_mc completionDays 95) of
                 (Some q50, Some q85, Some q95) \<Rightarrow>
                   let maxPeriods = last completionDays;
                       distribution' =
                         map (\<lambda>p. \<lparr>de_periods = p, de_date = periodToDate p,
                                   de_probability =
                                     js_round (of_nat (length (filter (\<lambda>d. d \<le> p) completionDays))
                                               / of_nat sims * 100)\<rparr>)
                           [1 ..< Suc (min maxPeriods 24)]
                   in (Inr \<lparr>remainingItems = remaining,
                            simulations = sims,
                            avgThroughput =
                              Some (of_int (js_round (sum_list throughputValues
                                                      / of_nat (length throughputValues) * 10)) / 10),
                            fc_percentiles =
                              [(''p50'', \<lparr>pe_periods = q50, pe_date = periodToDate q50,
                                         pe_confidence = ''50%''\<rparr>),
                               (''p85'', \<lparr>pe_periods = q85, pe_date = periodToDate q85,
                                         pe_confidence = ''85%''\<rparr>),
                               (''p95'', \<lparr>pe_periods = q95, pe_date = periodToDate q95,
                                         pe_confidence = ''95%''\<rparr>)],
                            distribution = distribution',
                            message = None\<rparr>, drawn)
               | _ \<Rightarrow> (Inl RangeError, drawn)))"

section \<open>Example inputs\<close>

definition ex_epic :: jira_issue where
  "ex_epic = \<lparr>issue_key = ''EP-1'', statusCategoryKey = Some ''indeterminate'',
              duedate = DateMs 1000, created_raw = DateMs 0, customfield_10061 = None\<rparr>"

definition ex_deps2 :: dependencies where
  "ex_deps2 = \<lparr>blocks = [], blockedBy =
      [\<lparr>link_key = ''A-1'', link_status = Some ''Done''\<rparr>], relatesTo = []\<rparr>"

definition ex_deps :: dependencies where
  "ex_deps = \<lparr>blocks = [], blockedBy =
      [\<lparr>link_key = ''A-1'', link_status = Some ''Done''\<rparr>,
       \<lparr>link_key = ''B-2'', link_status = Some ''In Progress''\<rparr>,
       \<lparr>link_key = ''C-3'', link_status = None\<rparr>,
       \<lparr>link_key = ''D-4'', link_status = Some ''CLOSED''\<rparr>], relatesTo = []\<rparr>"

definition ex_children :: child_progress where
  "ex_children = \<lparr>total = 0, done' = 0, inProgress = 0, todo = 0,
                   totalPoints = 0, completedPoints = 0, progress = 0\<rparr>"

definition ex_mappings :: field_mappings where
  "ex_mappings = \<lparr>fm_businessValue = Some ''cf_bv'', fm_timeCriticality = Some ''cf_tc'',
                   fm_riskReduction = Some ''cf_rr'', fm_jobSize = Some ''cf_js'', fm_moscow = None\<rparr>"

definition ex_raw :: "rat \<Rightarrow> string \<rightharpoonup> rat" where
  "ex_raw js = [''cf_bv'' \<mapsto> 5, ''cf_tc'' \<mapsto> 3, ''cf_rr'' \<mapsto> 2, ''cf_js'' \<mapsto> js]"

definition ex_wsjf_epic :: "rat \<Rightarrow> epic" where
  "ex_wsjf_epic js =
     \<lparr>e_key = ''EP-7'', e_summary = ''Checkout'', e_status = ''To Do'', e_statusCategory = ''new'',
      e_priority = ''High'', e_assignee = ''Ana'', e_created = DateMs 0, e_dueDate = NoDate,
      e_resolutionDate = NoDate, e_storyPoints = 0, e_parentKey = None, e_children = ex_children,
      e_progress = 0, e_health = ''no-data'', e_rawFields = Some (ex_raw js)\<rparr>"

definition ex_rounding_epic :: epic where
  "ex_rounding_epic =
     (ex_wsjf_epic 40)\<lparr>e_rawFields :=
        Some [''cf_bv'' \<mapsto> 20, ''cf_tc'' \<mapsto> 13, ''cf_rr'' \<mapsto> 8, ''cf_js'' \<mapsto> 40]\<rparr>"

definition ex_periodToDate :: "nat \<Rightarrow> string" where
  "ex_periodToDate p = ''2026-11-03+'' @ digits p @ ''m''"

definition ex_rnd :: "nat \<Rightarrow> rat" where
  "ex_rnd i = of_nat (i mod 4) / 4"

definition ex_history :: "throughput_point list" where
  "ex_history = [\<lparr>tp_period = ''2026-08'', tp_count = 5\<rparr>, \<lparr>tp_period = ''2026-09'', tp_count = 5\<rparr>]"

definition ex_history2 :: "throughput_point list" where
  "ex_history2 = [\<lparr>tp_period = ''2026-08'', tp_count = 0\<rparr>, \<lparr>tp_period = ''2026-09'', tp_count = -3\<rparr>,
      \<lparr>tp_period = ''2026-10'', tp_count = 4\<rparr>]"

definition ex_zero_history :: "throughput_point list" where
  "ex_zero_history = [\<lparr>tp_period = ''2026-08'', tp_count = 0\<rparr>]"

definition ex_lead_epic :: "string \<Rightarrow> string \<Rightarrow> jsdate \<Rightarrow> jsdate \<Rightarrow> epic" where
  "ex_lead_epic k cat c r =
     \<lparr>e_key = k, e_summary = ''Epic'', e_status = ''Done'', e_statusCategory = cat,
      e_priority = ''Medium'', e_assignee = ''Ana'', e_created = c, e_dueDate = NoDate,
      e_resolutionDate = r, e_storyPoints = 0, e_parentKey = None, e_children = ex_children,
      e_progress = 0, e_health = ''done'', e_rawFields = None\<rparr>"

definition ex_lead_epics :: "epic list" where
  "ex_lead_epics =
     [ex_lead_epic ''E-1'' ''done'' (DateMs 0) (DateMs (3 * 86400000)),
      ex_lead_epic ''E-2'' ''done'' (DateMs 0) (DateMs (7 * 86400000)),
      ex_lead_epic ''E-3'' ''done'' (DateMs 0) (DateMs (20 * 86400000)),
      ex_lead_epic ''E-4'' ''done'' (DateMs (5 * 86400000)) (DateMs 0),
      ex_lead_epic ''E-5'' ''done'' BadDate (DateMs 0),
      ex_lead_epic ''E-6'' ''indeterminate'' (DateMs 0) NoDate]"



definition ex_wip_epic :: "string \<Rightarrow> string \<Rightarrow> epic" where
  "ex_wip_epic k a =
     \<lparr>e_key = k, e_summary = ''Epic'', e_status = ''In Progress'', e_statusCategory = ''indeterminate'',
      e_priority = ''Medium'', e_assignee = a, e_created = DateMs 0, e_dueDate = NoDate,
      e_resolutionDate = NoDate, e_storyPoints = 0, e_parentKey = None, e_children = ex_children,
      e_progress = 0, e_health = ''on-track'', e_rawFields = None\<rparr>"

section \<open>Auxiliary notions for the properties\<close>


text \<open>
  The number held by a counter of a plain object (zero for a counter that has become a
  string), and the objects whose counters are all numbers.
\<close>

fun count_number :: "jsval \<Rightarrow> nat" where
  "count_number (JNum n) = n"
| "count_number JText = 0"

definition numeric :: "jsobj \<Rightarrow> bool" where
  "numeric obj \<longleftrightarrow> (\<forall>(k, v) \<in> set obj. v \<noteq> JText)"

section \<open>Properties of the health verdict\<close>

lemma health_not_done_blocked:
  assumes "statusCategoryKey epic \<noteq> Some ''done''"
    and "filter unresolved (blockedBy d) \<noteq> []"
  shows "calculateEpicHealth now epic children (Some d) =
           \<lparr>health = ''blocked'',
            reason = ''Blocked by '' @ join '', '' (map link_key (filter unresolved (blockedBy d)))\<rparr>"
  using assms by (simp add: calculateEpicHealth_def Let_def)

lemma unresolved_iff:
  "unresolved b \<longleftrightarrow>
     toLowerCase (case link_status b of None \<Rightarrow> [] | Some s \<Rightarrow> s) \<notin> {''done'', ''closed'', ''resolved''}"
  by (simp add: unresolved_def Let_def)

text \<open>
  Claim C2. For an epic whose own status category is not \<open>done\<close>: if some entry of
  \<open>blockedBy\<close> has a status (the empty string when it has none) whose lower-case form is not
  one of \<open>done\<close>, \<open>closed\<close>, \<open>resolved\<close>, the verdict is \<open>blocked\<close> and the reason is
  \<open>Blocked by\<close> followed by the keys of exactly those entries, in their order in
  \<open>blockedBy\<close>, joined by a comma and a space. The children, the due date and the clock do
  not matter.
\<close>

theorem C2_blocked:
  assumes "statusCategoryKey epic \<noteq> Some ''done''"
    and "b \<in> set (blockedBy d)"
    and "toLowerCase (case link_status b of None \<Rightarrow> [] | Some s \<Rightarrow> s)
           \<notin> {''done'', ''closed'', ''resolved''}"
  shows "calculateEpicHealth now epic children (Some d) =
           \<lparr>health = ''blocked'',
            reason = ''Blocked by '' @
              join '', ''
                (map link_key
                   (filter (\<lambda>b. toLowerCase (case link_status b of None \<Rightarrow> [] | Some s \<Rightarrow> s)
                                  \<notin> {''done'', ''closed'', ''resolved''})
                      (blockedBy d)))\<rparr>"
proof -
  have "unresolved b" using assms(3) by (simp add: unresolved_iff)
  with assms(2) have "filter unresolved (blockedBy d) \<noteq> []"
    by (auto simp: filter_empty_conv)
  from health_not_done_blocked [OF assms(1) this]
  show ?thesis by (simp add: unresolved_iff [abs_def])
qed

theorem C2_blocked_witness:
  "statusCategoryKey ex_epic \<noteq> Some ''done'' \<and>
   calculateEpicHealth 2000 ex_epic (Some []) (Some ex_deps) =
     \<lparr>health = ''blocked'', reason = ''Blocked by B-2, C-3''\<rparr>"
proof -
  have h1: "statusCategoryKey ex_epic \<noteq> Some ''done''" by code_simp
  have h2: "\<lparr>link_key = ''B-2'', link_status = Some ''In Progress''\<rparr> \<in> set (blockedBy ex_deps)"
    by (simp add: ex_deps_def)
  have h3: "toLowerCase (case link_status \<lparr>link_key = ''B-2'', link_status = Some ''In Progress''\<rparr>
                          of None \<Rightarrow> [] | Some s \<Rightarrow> s) \<notin> {''done'', ''closed'', ''resolved''}"
    by code_simp
  have r: "''Blocked by '' @
              join '', ''
                (map link_key
                   (filter (\<lambda>b. toLowerCase (case link_status b of None \<Rightarrow> [] | Some s \<Rightarrow> s)
                                  \<notin> {''done'', ''closed'', ''resolved''})
                      (blockedBy ex_deps))) = ''Blocked by B-2, C-3''"
    by code_simp
  from C2_blocked [OF h1 h2 h3, of 2000 "Some []"] h1 r show ?thesis by simp
qed

text \<open>
  Claim C1 as stated fails: an epic that is not done, has no blockers and no children, but
  has a due date in the past, is \<open>at-risk\<close>. The check for missing children stands inside
  the branch for epics without a due date.
\<close>

theorem C1_counterexample:
  "statusCategoryKey ex_epic \<noteq> Some ''done'' \<and>
   calculateEpicHealth 2000 ex_epic (Some []) None =
     \<lparr>health = ''at-risk'', reason = ''Overdue (0% done)''\<rparr> \<and>
   health (calculateEpicHealth 2000 ex_epic (Some []) None) \<noteq> ''no-data''"
  by code_simp

lemma no_children_progress:
  "children = None \<or> children = Some [] \<Longrightarrow> calculateEpicProgress children = no_progress"
  by (auto simp: calculateEpicProgress_def)

text \<open>
  Claim C1, amended. For an epic that is not done, has no unresolved blocker and no
  children: without a due date the verdict is \<open>no-data\<close>; with a due date the due-date rules
  run on a progress of 0 and the verdict is \<open>at-risk\<close> or \<open>on-track\<close>, and it is \<open>at-risk\<close>
  (overdue) once the due date has passed.
\<close>

theorem C1_no_data_amended:
  assumes "statusCategoryKey epic \<noteq> Some ''done''"
    and "filter unresolved (case deps of None \<Rightarrow> [] | Some d \<Rightarrow> blockedBy d) = []"
    and "children = None \<or> children = Some []"
  shows "(\<not> truthy_date (duedate epic) \<longrightarrow>
            calculateEpicHealth now epic children deps =
              \<lparr>health = ''no-data'', reason = ''No child issues''\<rparr>) \<and>
         (truthy_date (duedate epic) \<longrightarrow>
            health (calculateEpicHealth now epic children deps) \<in> {''at-risk'', ''on-track''}) \<and>
         (\<forall>t. duedate epic = DateMs t \<and> now > t \<longrightarrow>
            calculateEpicHealth now epic children deps =
              \<lparr>health = ''at-risk'', reason = ''Overdue (0% done)''\<rparr>)"
proof -
  have p: "calculateEpicProgress children = no_progress"
    using assms(3) by (rule no_children_progress)
  have s0: "show_int 0 = ''0''" by code_simp
  show ?thesis
    using assms(1,2)
    by (auto simp: calculateEpicHealth_def Let_def p no_progress_def s0 split: option.splits)
qed

theorem C1_no_data_amended_witness:
  "statusCategoryKey (ex_epic\<lparr>duedate := NoDate\<rparr>) \<noteq> Some ''done'' \<and>
   filter unresolved (blockedBy ex_deps2) = [] \<and>
   calculateEpicHealth 2000 (ex_epic\<lparr>duedate := NoDate\<rparr>) (Some []) (Some ex_deps2) =
     \<lparr>health = ''no-data'', reason = ''No child issues''\<rparr> \<and>
   health (calculateEpicHealth 500 ex_epic None (Some ex_deps2)) \<in> {''at-risk'', ''on-track''}"
proof -
  have h1: "statusCategoryKey (ex_epic\<lparr>duedate := NoDate\<rparr>) \<noteq> Some ''done''" by code_simp
  have h1': "statusCategoryKey ex_epic \<noteq> Some ''done''" by code_simp
  have h2: "filter unresolved (case Some ex_deps2 of None \<Rightarrow> [] | Some d \<Rightarrow> blockedBy d) = []"
    by code_simp
  have h3: "Some ([]::jira_issue list) = None \<or> Some [] = Some ([]::jira_issue list)" by simp
  have h4: "(None::jira_issue list option) = None \<or> None = Some ([]::jira_issue list)" by simp
  have d1: "\<not> truthy_date (duedate (ex_epic\<lparr>duedate := NoDate\<rparr>))" by simp
  have d2: "truthy_date (duedate ex_epic)" by (simp add: ex_epic_def)
  from C1_no_data_amended [OF h1 h2 h3, of 2000] C1_no_data_amended [OF h1' h2 h4, of 500]
    h1 h2 d1 d2
  show ?thesis by simp
qed

section \<open>Properties of the double arithmetic\<close>

text \<open>
  \<open>binade\<close> is the binary exponent, and a double differs from the number it rounds by at
  most half a unit in the last place: relatively by \<open>2^-53\<close>, or by \<open>2^-1075\<close> in the
  subnormal range.
\<close>

lemma rhe_near: "\<bar>of_int (round_half_even q) - q\<bar> \<le> 1 / 2"
proof -
  have a: "of_int \<lfloor>q\<rfloor> \<le> q" by (rule of_int_floor_le)
  have b: "q < of_int \<lfloor>q\<rfloor> + 1" using floor_correct [of q] by simp
  show ?thesis
    unfolding round_half_even_def Let_def using a b by (auto simp: abs_le_iff)
qed

lemma powi_nat: "0 \<le> k \<Longrightarrow> (2::rat) powi k = 2 ^ nat k"
  by (simp add: power_int_def)

lemma int_pow_le_rat:
  "0 \<le> k \<Longrightarrow> 2 ^ nat k \<le> (n::int) \<Longrightarrow> (2::rat) powi k \<le> of_int n"
proof -
  assume k: "0 \<le> k" and "2 ^ nat k \<le> n"
  then have "(of_int (2 ^ nat k) :: rat) \<le> of_int n" by (simp only: of_int_le_iff)
  then have "(2::rat) ^ nat k \<le> of_int n" by simp
  then show ?thesis using k by (simp only: powi_nat)
qed

lemma int_less_pow_rat:
  "0 \<le> k \<Longrightarrow> (n::int) < 2 ^ nat k \<Longrightarrow> of_int n < (2::rat) powi k"
proof -
  assume k: "0 \<le> k" and "n < 2 ^ nat k"
  then have "(of_int n :: rat) < of_int (2 ^ nat k)" by (simp only: of_int_less_iff)
  then have "of_int n < (2::rat) ^ nat k" by simp
  then show ?thesis using k by (simp only: powi_nat)
qed

lemma powi2_add: "(2::rat) powi (m + n) = 2 powi m * 2 powi n"
  by (rule power_int_add) simp

lemma powi2_pos: "(0::rat) < 2 powi k"
  by (rule zero_less_power_int) simp

lemma binade_bounds:
  assumes "0 < x"
  shows "2 powi (binade x) \<le> x \<and> x < 2 powi (binade x + 1)"
proof -
  obtain p q where pq: "quotient_of x = (p, q)" by fastforce
  have q: "0 < q" using pq by (rule quotient_of_denom_pos)
  have x: "x = of_int p / of_int q" using pq by (rule quotient_of_div)
  have qpos: "(0::rat) < of_int q" using q by simp
  have "(0::rat) < of_int p"
    using assms qpos unfolding x by (simp add: zero_less_divide_iff)
  then have p: "0 < p" by simp
  let ?e = "bitlen p - bitlen q"
  have "bitlen p \<noteq> 0" "bitlen q \<noteq> 0"
    using p q by (simp_all add: bitlen_eq_zero_iff)
  then have bp: "0 \<le> bitlen p - 1" "0 \<le> bitlen q - 1" "0 \<le> bitlen p" "0 \<le> bitlen q"
    using bitlen_nonneg [of p] bitlen_nonneg [of q] by linarith+
  note bbp = bitlen_bounds [OF p] and bbq = bitlen_bounds [OF q]
  have p1: "(2::rat) powi (bitlen p - 1) \<le> of_int p"
    using bp(1) bbp [THEN conjunct1] by (rule int_pow_le_rat)
  have p2: "of_int p < (2::rat) powi (bitlen p)"
    using bp(3) bbp [THEN conjunct2] by (rule int_less_pow_rat)
  have q1: "(2::rat) powi (bitlen q - 1) \<le> of_int q"
    using bp(2) bbq [THEN conjunct1] by (rule int_pow_le_rat)
  have q2: "of_int q < (2::rat) powi (bitlen q)"
    using bp(4) bbq [THEN conjunct2] by (rule int_less_pow_rat)
  have lo: "2 powi (?e - 1) \<le> x"
  proof -
    have "(2::rat) powi (?e - 1) * of_int q \<le> 2 powi (?e - 1) * 2 powi (bitlen q)"
      using q2 powi2_pos [of "?e - 1"] by (intro mult_left_mono) linarith+
    also have "\<dots> = 2 powi ((?e - 1) + bitlen q)" by (simp only: powi2_add)
    also have "(?e - 1) + bitlen q = bitlen p - 1" by linarith
    finally have "(2::rat) powi (?e - 1) * of_int q \<le> of_int p" using p1 by linarith
    then show ?thesis unfolding x using qpos by (simp only: pos_le_divide_eq)
  qed
  have hi: "x < 2 powi (?e + 1)"
  proof -
    have "(2::rat) powi (?e + 1) * 2 powi (bitlen q - 1) \<le> 2 powi (?e + 1) * of_int q"
      using q1 powi2_pos [of "?e + 1"] by (intro mult_left_mono) linarith+
    moreover have "(2::rat) powi (?e + 1) * 2 powi (bitlen q - 1) = 2 powi ((?e + 1) + (bitlen q - 1))"
      by (simp only: powi2_add)
    moreover have "(?e + 1) + (bitlen q - 1) = bitlen p" by linarith
    ultimately have "of_int p < (2::rat) powi (?e + 1) * of_int q" using p2 by simp
    then show ?thesis unfolding x using qpos by (simp only: pos_divide_less_eq)
  qed
  have b: "binade x = (if 2 powi ?e \<le> x then ?e else ?e - 1)"
    unfolding binade_def pq Let_def by (simp only: prod.case)
  show ?thesis
  proof (cases "2 powi ?e \<le> x")
    case True
    with hi b show ?thesis by simp
  next
    case False
    with lo b show ?thesis by simp
  qed
qed

lemma powi2_le_one: "k \<le> 0 \<Longrightarrow> (2::rat) powi k \<le> 1"
proof -
  assume k: "k \<le> 0"
  have "(2::rat) powi k * 2 powi (- k) = 2 powi (k + (- k))" by (simp only: powi2_add)
  then have one: "(2::rat) powi k * 2 powi (- k) = 1" by simp
  have "(2::rat) powi (- k) = 2 ^ nat (- k)" using k by (intro powi_nat) simp
  moreover have "(1::rat) \<le> 2 ^ nat (- k)" by (rule one_le_power) simp
  ultimately have ge: "(1::rat) \<le> 2 powi (- k)" by simp
  have "(2::rat) powi k * 1 \<le> 2 powi k * 2 powi (- k)"
    using ge powi2_pos [of k] by (intro mult_left_mono) linarith+
  with one show ?thesis by simp
qed

lemma dbl_error: "\<bar>dbl x - x\<bar> \<le> (\<bar>x\<bar> + 1) / 2 ^ 53"
proof (cases "x = 0")
  case True
  then show ?thesis by (simp add: dbl_def)
next
  case False
  define a where "a = \<bar>x\<bar>"
  define e where "e = max (binade a) (- 1022)"
  define u where "u = (2::rat) powi (e - 52)"
  define m where "m = round_half_even (a / u)"
  have a: "0 < a" using False by (simp add: a_def)
  have u: "0 < u" unfolding u_def by (rule powi2_pos)
  have d: "dbl x = sgn x * (of_int m * u)"
    using False by (simp add: dbl_def Let_def mult.assoc a_def e_def u_def m_def)
  have xs: "x = sgn x * a" by (simp add: sgn_mult_abs a_def)
  have "dbl x - x = sgn x * (of_int m * u) - sgn x * a"
    using d xs by simp
  also have "\<dots> = sgn x * (of_int m * u - a)" by (simp only: right_diff_distrib)
  finally have "\<bar>dbl x - x\<bar> = \<bar>sgn x\<bar> * \<bar>of_int m * u - a\<bar>" by (simp only: abs_mult)
  moreover have "\<bar>sgn x\<bar> = 1" using False by (simp add: abs_sgn_eq)
  ultimately have e1: "\<bar>dbl x - x\<bar> = \<bar>of_int m * u - a\<bar>" by simp
  have "of_int m * u - a = (of_int m - a / u) * u"
    using u by (simp add: left_diff_distrib)
  then have "\<bar>of_int m * u - a\<bar> = \<bar>of_int m - a / u\<bar> * \<bar>u\<bar>"
    by (simp only: abs_mult)
  also have "\<bar>u\<bar> = u" using u by simp
  also have "\<bar>of_int m - a / u\<bar> * u \<le> 1 / 2 * u"
    using rhe_near [of "a / u"] u unfolding m_def by (intro mult_right_mono) linarith+
  finally have e2: "\<bar>dbl x - x\<bar> \<le> u / 2" unfolding e1 by simp
  have "u * 2 powi 52 = 2 powi ((e - 52) + 52)" unfolding u_def by (simp only: powi2_add)
  moreover have "(2::rat) powi 52 = 2 ^ 52" using powi_nat [of 52] by simp
  ultimately have split: "u * 2 ^ 52 = 2 powi e" by simp
  have pe: "2 powi e \<le> a + 1"
  proof (cases "binade a \<ge> - 1022")
    case True
    then have "e = binade a" by (simp add: e_def)
    with binade_bounds [OF a] a show ?thesis by simp
  next
    case False
    then have "e = - 1022" by (simp add: e_def)
    with powi2_le_one [of e] a show ?thesis by simp
  qed
  have "u / 2 * 2 ^ 53 = u * 2 ^ 52" by simp
  with split pe have "u / 2 * 2 ^ 53 \<le> a + 1" by simp
  then have "u / 2 \<le> (a + 1) / 2 ^ 53" by (simp add: pos_le_divide_eq)
  with e2 show ?thesis unfolding a_def by linarith
qed

lemma to_double_error:
  "to_double x = Some y \<Longrightarrow> \<bar>y - x\<bar> \<le> (\<bar>x\<bar> + 1) / 2 ^ 53"
  using dbl_error [of x] by (auto simp: to_double_def Let_def split: if_splits)

text \<open>
  The error of the two roundings of a sum of three numbers, and of the three roundings of
  \<open>Math.round((c / j) * 100) / 100\<close>.
\<close>

lemma js_round_near: "\<bar>of_int (js_round x) - x\<bar> \<le> 1 / 2"
proof -
  have "of_int \<lfloor>x + 1 / 2\<rfloor> \<le> x + 1 / 2" by (rule of_int_floor_le)
  moreover have "x + 1 / 2 < of_int \<lfloor>x + 1 / 2\<rfloor> + 1"
    using floor_correct [of "x + 1 / 2"] by simp
  ultimately show ?thesis unfolding js_round_def by linarith
qed

lemma sum_error:
  assumes "js_add (js_add (Some a) (Some b)) (Some c) = Some s"
  shows "\<bar>s - (a + b + c)\<bar> \<le> (\<bar>a + b\<bar> + \<bar>a + b + c\<bar> + 3) / 2 ^ 52"
proof -
  from assms obtain t where t: "to_double (a + b) = Some t" and s: "to_double (t + c) = Some s"
    by (auto simp: js_add_def split: option.splits)
  define A E T d1 d2 G where "A = \<bar>a + b\<bar>" and "E = \<bar>a + b + c\<bar>" and "T = \<bar>t + c\<bar>"
    and "d1 = \<bar>t - (a + b)\<bar>" and "d2 = \<bar>s - (t + c)\<bar>" and "G = \<bar>s - (a + b + c)\<bar>"
  have e1: "d1 * 2 ^ 53 \<le> A + 1"
    using to_double_error [OF t] unfolding d1_def A_def by (simp add: pos_le_divide_eq)
  have e2: "d2 * 2 ^ 53 \<le> T + 1"
    using to_double_error [OF s] unfolding d2_def T_def by (simp add: pos_le_divide_eq)
  have t1: "T \<le> E + d1" unfolding T_def E_def d1_def by linarith
  have t2: "G \<le> d2 + d1" unfolding G_def d2_def d1_def by linarith
  have nn: "0 \<le> A" "0 \<le> E" unfolding A_def E_def by simp_all
  from e1 e2 t1 t2 nn have "G * 2 ^ 52 \<le> A + E + 3" by simp
  then show ?thesis unfolding G_def A_def E_def by (simp add: pos_le_divide_eq)
qed

lemma score_error:
  assumes "js_div (Math_round (js_mul (js_div (Some c) (Some j)) (Some 100))) (Some 100) = Some s"
    and "j \<noteq> 0"
  shows "(\<exists>k. to_double (of_int k / 100) = Some s) \<and>
         \<bar>s - c / j\<bar> \<le> 1 / 200 + (\<bar>c / j\<bar> + 1) / 2 ^ 50"
proof -
  from assms obtain x y where x: "to_double (c / j) = Some x" and y: "to_double (x * 100) = Some y"
    and s: "to_double (of_int (js_round y) / 100) = Some s"
    by (auto simp: js_div_def js_mul_def Math_round_def split: option.splits if_splits)
  define q k where "q = c / j" and "k = (of_int (js_round y) :: rat)"
  define Q X K d1 d2 d3 d4 G where "Q = \<bar>q\<bar>" and "X = \<bar>x * 100\<bar>" and "K = \<bar>k / 100\<bar>"
    and "d1 = \<bar>x - q\<bar>" and "d2 = \<bar>y - x * 100\<bar>" and "d3 = \<bar>s - k / 100\<bar>"
    and "d4 = \<bar>k - y\<bar>" and "G = \<bar>s - q\<bar>"
  have e1: "d1 * 2 ^ 53 \<le> Q + 1"
    using to_double_error [OF x] unfolding d1_def Q_def q_def by (simp add: pos_le_divide_eq)
  have e2: "d2 * 2 ^ 53 \<le> X + 1"
    using to_double_error [OF y] unfolding d2_def X_def by (simp add: pos_le_divide_eq)
  have e3: "d3 * 2 ^ 53 \<le> K + 1"
    using to_double_error [OF s] unfolding d3_def K_def k_def by (simp add: pos_le_divide_eq)
  have e4: "d4 \<le> 1 / 2" unfolding d4_def k_def by (rule js_round_near)
  have "\<bar>x\<bar> \<le> \<bar>q\<bar> + \<bar>x - q\<bar>" by linarith
  then have t1: "X \<le> 100 * Q + 100 * d1" unfolding X_def Q_def d1_def by (simp add: abs_mult)
  have t2: "100 * K \<le> X + d2 + d4" unfolding K_def X_def d2_def d4_def by linarith
  have "\<bar>s - q\<bar> \<le> \<bar>s - k / 100\<bar> + \<bar>k / 100 - q\<bar>" by linarith
  moreover have "\<bar>k / 100 - q\<bar> \<le> \<bar>k / 100 - x\<bar> + \<bar>x - q\<bar>" by linarith
  moreover have "\<bar>k / 100 - x\<bar> \<le> \<bar>k / 100 - y / 100\<bar> + \<bar>y / 100 - x\<bar>" by linarith
  moreover have "\<bar>k / 100 - y / 100\<bar> = \<bar>k - y\<bar> / 100"
  proof -
    have eq: "k / 100 - y / 100 = (k - y) / 100" by (simp add: diff_divide_distrib)
    show ?thesis unfolding eq by simp
  qed
  moreover have "\<bar>y / 100 - x\<bar> = \<bar>y - x * 100\<bar> / 100"
  proof -
    have eq: "y / 100 - x = (y - x * 100) / 100" by (simp add: diff_divide_distrib)
    show ?thesis unfolding eq by simp
  qed
  ultimately have t3: "100 * G \<le> 100 * d3 + d4 + d2 + 100 * d1"
    unfolding G_def d3_def d4_def d2_def d1_def by linarith
  have nn: "0 \<le> Q" unfolding Q_def by simp
  have s1: "100 * d1 \<le> Q + 1" using e1 nn by simp
  have s2: "X \<le> 101 * Q + 1" using t1 s1 by linarith
  have s3: "d2 * 2 ^ 53 \<le> 101 * Q + 2" using e2 s2 by linarith
  have s4: "d2 \<le> 101 * Q + 2" using s3 nn by simp
  have s5: "K \<le> 3 * Q + 1" using t2 s2 s4 e4 nn by linarith
  have s6: "d3 * 2 ^ 53 \<le> 3 * Q + 2" using e3 s5 by linarith
  have s7: "(100 * d3 + d2 + 100 * d1) * 2 ^ 53 \<le> 501 * Q + 302"
    using s6 s3 e1 by (simp add: algebra_simps)
  have s8: "100 * G * 2 ^ 53 \<le> d4 * 2 ^ 53 + (501 * Q + 302)"
    using t3 s7 by (simp add: algebra_simps)
  have "G * 2 ^ 53 \<le> 2 ^ 53 / 200 + 8 * (Q + 1)" using s8 e4 nn by simp
  then have "G \<le> 1 / 200 + (Q + 1) / 2 ^ 50" by (simp add: field_simps)
  then have "\<bar>s - c / j\<bar> \<le> 1 / 200 + (\<bar>c / j\<bar> + 1) / 2 ^ 50"
    unfolding G_def Q_def q_def .
  with s show ?thesis by blast
qed

section \<open>Properties of the WSJF score\<close>

text \<open>
  Claim C3 as stated fails for a mapped job size of zero: zero is falsy, so the job size
  falls back to the children's total points and then to 1, and the divisor is 1 where the
  claim has \<open>max(0, 0.5) = 0.5\<close>.
\<close>

theorem C3_counterexample:
  "e_rawFields (ex_wsjf_epic 0) = Some (ex_raw 0) \<and>
   ex_raw 0 ''cf_bv'' = Some 5 \<and> ex_raw 0 ''cf_tc'' = Some 3 \<and>
   ex_raw 0 ''cf_rr'' = Some 2 \<and> ex_raw 0 ''cf_js'' = Some 0 \<and>
   wsjfScore (calculateWSJF 0 (ex_wsjf_epic 0) (Some ex_mappings)) = Some 10 \<and>
   of_int (js_round ((5 + 3 + 2) / max 0 (1 / 2) * 100)) / 100 = (20 :: rat)"
proof -
  have raw: "e_rawFields (ex_wsjf_epic 0) = Some (ex_raw 0)" by (simp add: ex_wsjf_epic_def)
  have vals: "ex_raw 0 ''cf_bv'' = Some 5" "ex_raw 0 ''cf_tc'' = Some 3"
             "ex_raw 0 ''cf_rr'' = Some 2" "ex_raw 0 ''cf_js'' = Some 0"
    by (simp_all add: ex_raw_def)
  have code: "wsjfScore (calculateWSJF 0 (ex_wsjf_epic 0) (Some ex_mappings)) = Some 10"
    by code_simp
  have spec: "of_int (js_round ((5 + 3 + 2) / max 0 (1 / 2) * 100)) / 100 = (20 :: rat)"
    by code_simp
  from raw vals code spec show ?thesis by simp
qed

text \<open>
  Claim C3, amended. In mapped mode, for an epic whose raw fields supply, as own
  properties, the four mapped numbers \<open>bv\<close>, \<open>tc\<close>, \<open>rr\<close>, \<open>js\<close>: the job size is
  \<open>max(sz, 0.5)\<close>, where \<open>sz\<close> is \<open>js\<close> when \<open>js\<close> is not zero, else the children's total
  points when they are not zero, else 1; so the divisor is at least 0.5. The cost of delay
  is the sum \<open>bv + tc + rr\<close> and the score is
  \<open>Math.round((costOfDelay / jobSize) * 100) / 100\<close>, both in double arithmetic. When
  they are finite, the cost of delay is the exact sum up to the two roundings, and the
  score is the double nearest to a multiple of 0.01 and lies within 0.005, up to the three
  roundings, of the quotient of the cost of delay by the job size. With 5, 3, 2 and job
  size 2 the score is 5. The score need not be the hundredth nearest to the exact
  quotient: with 20, 13, 8 and job size 40 the quotient is 1.025 and the score is 1.02.
\<close>

theorem C3_wsjf_mapped:
  fixes now :: int
  assumes raw: "e_rawFields e = Some m"
    and keys: "fm_businessValue fm = Some kb" "fm_timeCriticality fm = Some kt"
              "fm_riskReduction fm = Some kr" "fm_jobSize fm = Some kj"
    and vals: "m kb = Some bv" "m kt = Some tc" "m kr = Some rr" "m kj = Some js"
  defines "r \<equiv> calculateWSJF now e (Some fm)"
    and "j \<equiv> max (if js \<noteq> 0 then js
                   else if totalPoints (e_children e) \<noteq> 0 then totalPoints (e_children e) else 1)
                  (1 / 2)"
  shows "jobSize r = Some j \<and> 1 / 2 \<le> j \<and>
         costOfDelay r = js_add (js_add (Some bv) (Some tc)) (Some rr) \<and>
         wsjfScore r =
           js_div (Math_round (js_mul (js_div (costOfDelay r) (Some j)) (Some 100))) (Some 100) \<and>
         (\<forall>c. costOfDelay r = Some c \<longrightarrow>
              \<bar>c - (bv + tc + rr)\<bar> \<le> (\<bar>bv + tc\<bar> + \<bar>bv + tc + rr\<bar> + 3) / 2 ^ 52) \<and>
         (\<forall>c s. costOfDelay r = Some c \<and> wsjfScore r = Some s \<longrightarrow>
              (\<exists>k. to_double (of_int k / 100) = Some s) \<and>
              \<bar>s - c / j\<bar> \<le> 1 / 200 + (\<bar>c / j\<bar> + 1) / 2 ^ 50)"
proof -
  have f: "raw_field e (Some kb) = Some bv" "raw_field e (Some kt) = Some tc"
          "raw_field e (Some kr) = Some rr" "raw_field e (Some kj) = Some js"
    using raw vals by (simp_all add: raw_field_def)
  have a: "jobSize r = Some j"
    using keys f by (simp add: r_def j_def calculateWSJF_def Let_def or_num_def)
  have b: "1 / 2 \<le> j" unfolding j_def by simp
  have c: "costOfDelay r = js_add (js_add (Some bv) (Some tc)) (Some rr)"
    using keys f by (simp add: r_def calculateWSJF_def Let_def)
  have d: "wsjfScore r =
           js_div (Math_round (js_mul (js_div (costOfDelay r) (Some j)) (Some 100))) (Some 100)"
    using keys f by (simp add: r_def j_def calculateWSJF_def Let_def or_num_def)
  have e: "\<bar>x - (bv + tc + rr)\<bar> \<le> (\<bar>bv + tc\<bar> + \<bar>bv + tc + rr\<bar> + 3) / 2 ^ 52"
    if "costOfDelay r = Some x" for x
    using that unfolding c by (rule sum_error)
  have g: "(\<exists>k. to_double (of_int k / 100) = Some s) \<and>
           \<bar>s - x / j\<bar> \<le> 1 / 200 + (\<bar>x / j\<bar> + 1) / 2 ^ 50"
    if "costOfDelay r = Some x" "wsjfScore r = Some s" for x s
  proof -
    have "j \<noteq> 0" using b by auto
    moreover from that d
    have "js_div (Math_round (js_mul (js_div (Some x) (Some j)) (Some 100))) (Some 100) = Some s"
      by simp
    ultimately show ?thesis by (intro score_error)
  qed
  from a b c d e g show ?thesis by blast
qed

theorem C3_wsjf_mapped_witness:
  "e_rawFields (ex_wsjf_epic 2) = Some (ex_raw 2) \<and>
   ex_raw 2 ''cf_bv'' = Some 5 \<and> ex_raw 2 ''cf_tc'' = Some 3 \<and>
   ex_raw 2 ''cf_rr'' = Some 2 \<and> ex_raw 2 ''cf_js'' = Some 2 \<and>
   jobSize (calculateWSJF 0 (ex_wsjf_epic 2) (Some ex_mappings)) = Some 2 \<and>
   costOfDelay (calculateWSJF 0 (ex_wsjf_epic 2) (Some ex_mappings)) = Some 10 \<and>
   wsjfScore (calculateWSJF 0 (ex_wsjf_epic 2) (Some ex_mappings)) = Some 5 \<and>
   wsjfScore (calculateWSJF 0 ex_rounding_epic (Some ex_mappings)) = to_double (51 / 50) \<and>
   to_double (51 / 50) = Some (2296835809958953 / 2251799813685248)"
proof -
  have raw: "e_rawFields (ex_wsjf_epic 2) = Some (ex_raw 2)" by (simp add: ex_wsjf_epic_def)
  have keys: "fm_businessValue ex_mappings = Some ''cf_bv''"
             "fm_timeCriticality ex_mappings = Some ''cf_tc''"
             "fm_riskReduction ex_mappings = Some ''cf_rr''"
             "fm_jobSize ex_mappings = Some ''cf_js''"
    by (simp_all add: ex_mappings_def)
  have vals: "ex_raw 2 ''cf_bv'' = Some 5" "ex_raw 2 ''cf_tc'' = Some 3"
             "ex_raw 2 ''cf_rr'' = Some 2" "ex_raw 2 ''cf_js'' = Some 2"
    by (simp_all add: ex_raw_def)
  have j: "max (if (2::rat) \<noteq> 0 then 2
                else if totalPoints (e_children (ex_wsjf_epic 2)) \<noteq> 0
                     then totalPoints (e_children (ex_wsjf_epic 2)) else 1) (1 / 2) = 2"
    by simp
  have c: "js_add (js_add (Some 5) (Some 3)) (Some 2) = Some 10" by code_simp
  have s: "js_div (Math_round (js_mul (js_div (Some 10) (Some 2)) (Some 100))) (Some 100) = Some 5"
    by code_simp
  note t = C3_wsjf_mapped [OF raw keys vals, of 0, unfolded j]
  from t have t1: "jobSize (calculateWSJF 0 (ex_wsjf_epic 2) (Some ex_mappings)) = Some 2"
    by blast
  from t c have t2: "costOfDelay (calculateWSJF 0 (ex_wsjf_epic 2) (Some ex_mappings)) = Some 10"
    by simp
  from t have "wsjfScore (calculateWSJF 0 (ex_wsjf_epic 2) (Some ex_mappings)) =
     js_div (Math_round (js_mul (js_div (costOfDelay (calculateWSJF 0 (ex_wsjf_epic 2) (Some ex_mappings)))
        (Some 2)) (Some 100))) (Some 100)"
    by blast
  then have t3: "wsjfScore (calculateWSJF 0 (ex_wsjf_epic 2) (Some ex_mappings)) = Some 5"
    unfolding t2 s .
  have u: "wsjfScore (calculateWSJF 0 ex_rounding_epic (Some ex_mappings)) =
             Some (2296835809958953 / 2251799813685248)"
    by code_simp
  have v: "to_double (51 / 50) = Some (2296835809958953 / 2251799813685248)" by code_simp
  from raw vals t1 t2 t3 u v show ?thesis by simp
qed

section \<open>Properties of the forecast and of the percentile helpers\<close>

text \<open>
  Claim C4. When the history is missing or empty, or the remaining item count is not
  positive, \<open>monteCarloForecast\<close> returns the insufficient-data value (0 simulations, no
  percentiles, no distribution, the message) as a result and not as an exception, whatever
  the simulation count. The guard returns before the simulation loop: no trial runs and no
  random number is drawn.
\<close>

theorem C4_insufficient_data:
  assumes "historicalThroughput = None \<or> historicalThroughput = Some [] \<or> remaining \<le> 0"
  shows "monteCarloForecast periodToDate rnd drawn historicalThroughput remaining sims =
           (Inr \<lparr>remainingItems = remaining, simulations = 0, avgThroughput = None,
                 fc_percentiles = [], distribution = [],
                 message = Some ''Insufficient data for forecast''\<rparr>, drawn)"
  using assms
  by (auto simp: monteCarloForecast_def insufficient_def split: option.splits)

theorem C4_insufficient_data_witness:
  "monteCarloForecast ex_periodToDate ex_rnd 7 (Some []) 10 10000 =
           (Inr \<lparr>remainingItems = 10, simulations = 0, avgThroughput = None,
                 fc_percentiles = [], distribution = [],
                 message = Some ''Insufficient data for forecast''\<rparr>, 7) \<and>
   monteCarloForecast ex_periodToDate ex_rnd 7 (Some ex_history) (- 2) 10000 =
           (Inr \<lparr>remainingItems = - 2, simulations = 0, avgThroughput = None,
                 fc_percentiles = [], distribution = [],
                 message = Some ''Insufficient data for forecast''\<rparr>, 7) \<and>
   monteCarloForecast ex_periodToDate ex_rnd 7 None 10 10000 =
           (Inr \<lparr>remainingItems = 10, simulations = 0, avgThroughput = None,
                 fc_percentiles = [], distribution = [],
                 message = Some ''Insufficient data for forecast''\<rparr>, 7)"
  using C4_insufficient_data [of "Some []" 10 ex_periodToDate ex_rnd 7 10000]
        C4_insufficient_data [of "Some ex_history" "- 2" ex_periodToDate ex_rnd 7 10000]
        C4_insufficient_data [of None 10 ex_periodToDate ex_rnd 7 10000]
  by simp

lemma trial_loop_bounds:
  "periods \<le> 100 \<Longrightarrow>
   periods \<le> fst (trial_loop rnd tv itemsLeft periods drawn) \<and>
   fst (trial_loop rnd tv itemsLeft periods drawn) \<le> 100 \<and>
   snd (trial_loop rnd tv itemsLeft periods drawn) =
     drawn + (fst (trial_loop rnd tv itemsLeft periods drawn) - periods)"
proof (induction rnd tv itemsLeft periods drawn rule: trial_loop.induct)
  case (1 rnd tv itemsLeft periods drawn)
  show ?case
  proof (cases "(case itemsLeft of None \<Rightarrow> False | Some i \<Rightarrow> i > 0) \<and> periods < 100")
    case True
    then have "periods + 1 \<le> 100" by simp
    from "1.IH" [OF True refl refl refl this] True
    show ?thesis
      by (subst (1 2 3 4) trial_loop.simps) (auto simp: Let_def)
  next
    case False
    with "1.prems" show ?thesis
      by (subst (1 2 3 4) trial_loop.simps) auto
  qed
qed

lemma trial_loop_first:
  assumes "remaining > 0"
  shows "1 \<le> fst (trial_loop rnd tv (Some remaining) 0 drawn)"
proof -
  let ?idx = "\<lfloor>rnd drawn * of_nat (length tv)\<rfloor>"
  let ?left = "case (Some remaining, js_index tv ?idx) of
                 (Some i, Some t) \<Rightarrow> Some (i - t) | _ \<Rightarrow> None"
  have "trial_loop rnd tv (Some remaining) 0 drawn = trial_loop rnd tv ?left 1 (drawn + 1)"
    using assms by (subst trial_loop.simps) (simp add: Let_def)
  moreover have "1 \<le> fst (trial_loop rnd tv ?left 1 (drawn + 1))"
    using trial_loop_bounds [of 1 rnd tv ?left "drawn + 1"] by simp
  ultimately show ?thesis by simp
qed

lemma run_simulations_Suc:
  "fst (run_simulations rnd tv remaining (Suc n) drawn) =
     fst (trial_loop rnd tv (Some remaining) 0 drawn)
     # fst (run_simulations rnd tv remaining n (snd (trial_loop rnd tv (Some remaining) 0 drawn)))"
  by (simp add: Let_def split: prod.splits)

lemma run_simulations_length:
  "length (fst (run_simulations rnd tv remaining n drawn)) = n"
  by (induction n arbitrary: drawn) (simp_all add: run_simulations_Suc del: run_simulations.simps(2))

lemma run_simulations_bounds:
  assumes "remaining > 0"
  shows "p \<in> set (fst (run_simulations rnd tv remaining n drawn)) \<Longrightarrow> 1 \<le> p \<and> p \<le> 100"
proof (induction n arbitrary: drawn)
  case 0
  then show ?case by simp
next
  case (Suc n)
  let ?t = "trial_loop rnd tv (Some remaining) 0 drawn"
  have q: "1 \<le> fst ?t \<and> fst ?t \<le> 100"
    using trial_loop_first [OF assms, of rnd tv drawn]
          trial_loop_bounds [of 0 rnd tv "Some remaining" drawn] by simp
  from Suc.prems have "p = fst ?t \<or> p \<in> set (fst (run_simulations rnd tv remaining n (snd ?t)))"
    by (simp add: run_simulations_Suc del: run_simulations.simps(2))
  with q Suc.IH show ?case by blast
qed

lemma percentile_index:
  fixes p :: rat
  assumes "arr \<noteq> []" and "p \<le> 100"
  shows "max 0 (\<lceil>of_nat (length arr) * p / 100\<rceil> - 1) < int (length arr) \<and>
         nat (max 0 (\<lceil>of_nat (length arr) * p / 100\<rceil> - 1)) < length arr"
proof -
  let ?n = "length arr"
  have n: "0 < ?n" using assms(1) by simp
  have "of_nat ?n * p / 100 \<le> (of_nat ?n :: rat)"
  proof -
    have "of_nat ?n * p \<le> (of_nat ?n :: rat) * 100"
      using assms(2) by (intro mult_left_mono) simp_all
    then show ?thesis by simp
  qed
  then have "\<lceil>of_nat ?n * p / 100\<rceil> \<le> int ?n"
    by (simp add: ceiling_le_iff)
  then have lt: "max 0 (\<lceil>of_nat ?n * p / 100\<rceil> - 1) < int ?n" using n by simp
  then have "nat (max 0 (\<lceil>of_nat ?n * p / 100\<rceil> - 1)) < ?n" by linarith
  with lt show ?thesis by simp
qed

lemma js_index_percentile:
  fixes p :: rat
  assumes "arr \<noteq> []" and "p \<le> 100"
  shows "js_index arr (max 0 (\<lceil>of_nat (length arr) * p / 100\<rceil> - 1)) =
           Some (arr ! nat (max 0 (\<lceil>of_nat (length arr) * p / 100\<rceil> - 1)))"
proof -
  have ge: "0 \<le> max 0 (\<lceil>of_nat (length arr) * p / 100\<rceil> - 1)" by simp
  from percentile_index [OF assms] ge show ?thesis
    unfolding js_index_def by (simp only: if_True simp_thms)
qed

lemma percentile_mc_defined:
  assumes "arr \<noteq> []" and "p \<le> 100"
  shows "nat (max 0 (\<lceil>of_nat (length arr) * p / 100\<rceil> - 1)) < length arr \<and>
         percentile_mc arr p = Some (arr ! nat (max 0 (\<lceil>of_nat (length arr) * p / 100\<rceil> - 1)))"
  using percentile_index [OF assms] js_index_percentile [OF assms]
  by (simp add: percentile_mc_def Let_def)

text \<open>
  Claim C5. For a non-empty history and a positive remaining count, whatever the random
  source returns and whatever the samples are: a trial ends after at least 1 and at most
  100 periods; the simulation loop records one such count per trial; and with at least one
  trial the forecast returns a result. All functions involved are total: the trial loop is
  defined with a termination proof.
\<close>

theorem C5_trials_terminate:
  assumes "history \<noteq> []" and "remaining > 0"
  shows "1 \<le> fst (trial_loop rnd (map tp_count history) (Some remaining) 0 drawn) \<and>
         fst (trial_loop rnd (map tp_count history) (Some remaining) 0 drawn) \<le> 100 \<and>
         length (fst (run_simulations rnd (map tp_count history) remaining sims drawn)) = sims \<and>
         (\<forall>p \<in> set (fst (run_simulations rnd (map tp_count history) remaining sims drawn)).
            1 \<le> p \<and> p \<le> 100) \<and>
         (0 < sims \<longrightarrow>
            (\<exists>r. fst (monteCarloForecast periodToDate rnd drawn (Some history) remaining sims) = Inr r
                 \<and> simulations r = sims))"
proof -
  let ?tv = "map tp_count history"
  let ?run = "run_simulations rnd ?tv remaining sims drawn"
  have a: "1 \<le> fst (trial_loop rnd ?tv (Some remaining) 0 drawn)"
    using assms(2) by (rule trial_loop_first)
  have b: "fst (trial_loop rnd ?tv (Some remaining) 0 drawn) \<le> 100"
    using trial_loop_bounds [of 0 rnd ?tv "Some remaining" drawn] by simp
  have c: "length (fst ?run) = sims" by (rule run_simulations_length)
  have d: "\<forall>p \<in> set (fst ?run). 1 \<le> p \<and> p \<le> 100"
    using run_simulations_bounds [OF assms(2)] by blast
  have e: "\<exists>r. fst (monteCarloForecast periodToDate rnd drawn (Some history) remaining sims) = Inr r
               \<and> simulations r = sims" if "0 < sims"
  proof -
    have ne: "sort (fst ?run) \<noteq> []" using c that by (metis length_sort list.size(3) less_numeral_extra(3))
    note pd = percentile_mc_defined [OF ne]
    have "percentile_mc (sort (fst ?run)) 50 \<noteq> None" "percentile_mc (sort (fst ?run)) 85 \<noteq> None"
         "percentile_mc (sort (fst ?run)) 95 \<noteq> None"
      using pd [of 50] pd [of 85] pd [of 95] by simp_all
    then show ?thesis
      using assms
      by (auto simp: monteCarloForecast_def Let_def split: prod.splits option.splits)
  qed
  from a b c d e show ?thesis by blast
qed

theorem C5_trials_terminate_witness:
  "ex_zero_history \<noteq> [] \<and>
   fst (trial_loop ex_rnd (map tp_count ex_zero_history) (Some 10) 0 0) = 100 \<and>
   1 \<le> fst (trial_loop ex_rnd (map tp_count ex_history2) (Some 10) 0 0) \<and>
   fst (trial_loop ex_rnd (map tp_count ex_history2) (Some 10) 0 0) \<le> 100 \<and>
   length (fst (run_simulations ex_rnd (map tp_count ex_history2) 10 3 0)) = 3 \<and>
   (\<exists>r. fst (monteCarloForecast ex_periodToDate ex_rnd 0 (Some ex_history2) 10 3) = Inr r
        \<and> simulations r = 3)"
proof -
  have h1: "ex_history2 \<noteq> []" by (simp add: ex_history2_def)
  have h2: "(10::rat) > 0" by simp
  have z: "ex_zero_history \<noteq> []" by (simp add: ex_zero_history_def)
  have c: "fst (trial_loop ex_rnd (map tp_count ex_zero_history) (Some 10) 0 0) = 100"
    by code_simp
  from C5_trials_terminate [OF h1 h2, of ex_rnd 0 3 ex_periodToDate] z c
  show ?thesis by simp
qed

text \<open>
  Without any trial (a simulation count of 0, where the default is 10000) the computation
  ends too, by the \<open>RangeError\<close> of \<open>toISOString\<close> on the date made from the undefined
  percentile.
\<close>

lemma forecast_without_trials:
  assumes "history \<noteq> []" and "remaining > 0"
  shows "monteCarloForecast periodToDate rnd drawn (Some history) remaining 0 = (Inl RangeError, drawn)"
  using assms
  by (simp add: monteCarloForecast_def Let_def percentile_mc_def js_index_def)

lemma random_index_in_range:
  fixes r :: rat
  assumes "0 \<le> r" and "r < 1" and "0 < n"
  shows "0 \<le> \<lfloor>r * of_nat n\<rfloor> \<and> \<lfloor>r * of_nat n\<rfloor> < int n"
proof -
  have "0 \<le> r * of_nat n" using assms(1) by simp
  then have a: "0 \<le> \<lfloor>r * of_nat n\<rfloor>" by simp
  have "r * of_nat n < 1 * of_nat n" using assms(2,3) by (intro mult_strict_right_mono) simp_all
  then have "r * of_nat n < of_int (int n)" by simp
  then have "\<lfloor>r * of_nat n\<rfloor> < int n" by (simp only: floor_less_iff)
  with a show ?thesis by simp
qed

lemma constant_sample:
  fixes r :: rat
  assumes "tv \<noteq> []" and "\<forall>t \<in> set tv. t = c" and "0 \<le> r" and "r < 1"
  shows "js_index tv \<lfloor>r * of_nat (length tv)\<rfloor> = Some c"
proof -
  have n: "0 < length tv" using assms(1) by simp
  from random_index_in_range [OF assms(3,4) n]
  have i: "0 \<le> \<lfloor>r * of_nat (length tv)\<rfloor>" "\<lfloor>r * of_nat (length tv)\<rfloor> < int (length tv)"
    by simp_all
  then have "nat \<lfloor>r * of_nat (length tv)\<rfloor> < length tv" by linarith
  then have "tv ! nat \<lfloor>r * of_nat (length tv)\<rfloor> = c" using assms(2) by simp
  with i show ?thesis by (simp add: js_index_def)
qed

lemma constant_trial:
  assumes "tv \<noteq> []" and "\<forall>t \<in> set tv. t = 5" and "\<forall>i. 0 \<le> rnd i \<and> rnd i < 1"
  shows "trial_loop rnd tv (Some 10) 0 drawn = (2, drawn + 2)"
proof -
  have s: "js_index tv \<lfloor>rnd i * of_nat (length tv)\<rfloor> = Some 5" for i
    using constant_sample [OF assms(1,2)] assms(3) by simp
  have "trial_loop rnd tv (Some 10) 0 drawn = trial_loop rnd tv (Some 5) 1 (drawn + 1)"
    by (subst trial_loop.simps) (simp add: Let_def s)
  also have "\<dots> = trial_loop rnd tv (Some 0) 2 (drawn + 2)"
    by (subst trial_loop.simps) (simp add: Let_def s numeral_2_eq_2)
  also have "\<dots> = (2, drawn + 2)"
    by (subst trial_loop.simps) simp
  finally show ?thesis .
qed

lemma constant_run:
  assumes "tv \<noteq> []" and "\<forall>t \<in> set tv. t = 5" and "\<forall>i. 0 \<le> rnd i \<and> rnd i < 1"
  shows "run_simulations rnd tv 10 n drawn = (replicate n 2, drawn + 2 * n)"
  by (induction n arbitrary: drawn) (simp_all add: constant_trial [OF assms])

lemma percentile_mc_replicate:
  assumes "0 < n" and "p \<le> 100"
  shows "percentile_mc (replicate n x) p = Some x"
proof -
  have ne: "replicate n x \<noteq> []" using assms(1) by simp
  from percentile_mc_defined [OF ne assms(2)] show ?thesis by simp
qed

text \<open>
  Claim C6. When every value of the history is 5 and 10 items remain, the forecast does not
  depend on the random source (any two sources with values in the range of
  \<open>Math.random\<close>, from zero up to but excluding one, and any numbers of earlier draws): every trial records 2
  periods, the two results are equal, and the three percentiles reported are 2.
\<close>

theorem C6_constant_throughput_deterministic:
  assumes "history \<noteq> []" and "\<forall>t \<in> set history. tp_count t = 5"
    and "\<forall>i. 0 \<le> rnd1 i \<and> rnd1 i < 1" and "\<forall>i. 0 \<le> rnd2 i \<and> rnd2 i < 1"
  shows "fst (run_simulations rnd1 (map tp_count history) 10 sims d1) = replicate sims 2 \<and>
         fst (monteCarloForecast periodToDate rnd1 d1 (Some history) 10 sims) =
           fst (monteCarloForecast periodToDate rnd2 d2 (Some history) 10 sims) \<and>
         (0 < sims \<longrightarrow>
            (\<exists>r. fst (monteCarloForecast periodToDate rnd1 d1 (Some history) 10 sims) = Inr r \<and>
                 map (\<lambda>(name, e). (name, pe_periods e)) (fc_percentiles r) =
                   [(''p50'', 2), (''p85'', 2), (''p95'', 2)]))"
proof -
  let ?tv = "map tp_count history"
  have tv: "?tv \<noteq> []" "\<forall>t \<in> set ?tv. t = 5" using assms(1,2) by simp_all
  have r1: "run_simulations rnd1 ?tv 10 sims d = (replicate sims 2, d + 2 * sims)" for d
    using constant_run [OF tv assms(3)] .
  have r2: "run_simulations rnd2 ?tv 10 sims d = (replicate sims 2, d + 2 * sims)" for d
    using constant_run [OF tv assms(4)] .
  have srt: "sort (replicate sims (2::nat)) = replicate sims 2"
    by (rule sorted_sort_id) (simp add: sorted_replicate)
  have a: "fst (run_simulations rnd1 ?tv 10 sims d1) = replicate sims 2" by (simp add: r1)
  have b: "fst (monteCarloForecast periodToDate rnd1 d1 (Some history) 10 sims) =
           fst (monteCarloForecast periodToDate rnd2 d2 (Some history) 10 sims)"
    using assms(1)
    by (simp add: monteCarloForecast_def Let_def r1 r2 srt split: option.splits)
  have c: "\<exists>r. fst (monteCarloForecast periodToDate rnd1 d1 (Some history) 10 sims) = Inr r \<and>
                 map (\<lambda>(name, e). (name, pe_periods e)) (fc_percentiles r) =
                   [(''p50'', 2), (''p85'', 2), (''p95'', 2)]" if "0 < sims"
  proof -
    have p: "percentile_mc (replicate sims 2) 50 = Some 2" "percentile_mc (replicate sims 2) 85 = Some 2"
            "percentile_mc (replicate sims 2) 95 = Some 2"
      using that by (simp_all add: percentile_mc_replicate)
    show ?thesis
      using assms(1) by (simp add: monteCarloForecast_def Let_def r1 srt p)
  qed
  from a b c show ?thesis by blast
qed

lemma ex_rnd_range: "\<forall>i. 0 \<le> ex_rnd i \<and> ex_rnd i < 1"
proof
  fix i :: nat
  have "i mod 4 < 4" by simp
  then have "(of_nat (i mod 4) :: rat) < of_nat 4" by (simp only: of_nat_less_iff)
  then show "0 \<le> ex_rnd i \<and> ex_rnd i < 1" by (simp add: ex_rnd_def)
qed

theorem C6_constant_throughput_deterministic_witness:
  "ex_history \<noteq> [] \<and>
   fst (run_simulations ex_rnd (map tp_count ex_history) 10 3 0) = [2, 2, 2] \<and>
   fst (monteCarloForecast ex_periodToDate ex_rnd 0 (Some ex_history) 10 3) =
     fst (monteCarloForecast ex_periodToDate (\<lambda>i. 1 / 2) 5 (Some ex_history) 10 3) \<and>
   (\<exists>r. fst (monteCarloForecast ex_periodToDate ex_rnd 0 (Some ex_history) 10 3) = Inr r \<and>
        map (\<lambda>(name, e). (name, pe_periods e)) (fc_percentiles r) =
          [(''p50'', 2), (''p85'', 2), (''p95'', 2)])"
proof -
  have h1: "ex_history \<noteq> []" by (simp add: ex_history_def)
  have h2: "\<forall>t \<in> set ex_history. tp_count t = 5" by (simp add: ex_history_def)
  have h4: "\<forall>i::nat. 0 \<le> (1 / 2 :: rat) \<and> (1 / 2 :: rat) < 1" by simp
  have r: "replicate 3 (2::nat) = [2, 2, 2]" by (simp add: numeral_3_eq_3)
  note c6 = C6_constant_throughput_deterministic [OF h1 h2 ex_rnd_range h4, of 3 0 ex_periodToDate 5]
  from c6 have a: "fst (run_simulations ex_rnd (map tp_count ex_history) 10 3 0) = [2, 2, 2]"
    unfolding r by blast
  from c6 have b: "fst (monteCarloForecast ex_periodToDate ex_rnd 0 (Some ex_history) 10 3) =
     fst (monteCarloForecast ex_periodToDate (\<lambda>i. 1 / 2) 5 (Some ex_history) 10 3)"
    by blast
  have "0 < (3::nat)" by simp
  with c6 have c: "\<exists>r. fst (monteCarloForecast ex_periodToDate ex_rnd 0 (Some ex_history) 10 3) = Inr r \<and>
        map (\<lambda>(name, e). (name, pe_periods e)) (fc_percentiles r) =
          [(''p50'', 2), (''p85'', 2), (''p95'', 2)]"
    by blast
  from h1 a b c show ?thesis by blast
qed

lemma count_le_prefix:
  fixes arr :: "'a::linorder list"
  assumes "sorted arr" and "i < length arr"
  shows "Suc i \<le> length (filter (\<lambda>x. x \<le> arr ! i) arr)"
proof -
  have "\<forall>x \<in> set (take (Suc i) arr). x \<le> arr ! i"
  proof
    fix x assume "x \<in> set (take (Suc i) arr)"
    then obtain j where "j < Suc i" "j < length arr" "x = arr ! j"
      by (auto simp: in_set_conv_nth)
    with assms show "x \<le> arr ! i" by (simp add: sorted_nth_mono)
  qed
  then have "filter (\<lambda>x. x \<le> arr ! i) (take (Suc i) arr) = take (Suc i) arr"
    by (simp add: filter_id_conv)
  moreover have "length (filter (\<lambda>x. x \<le> arr ! i) arr) =
                 length (filter (\<lambda>x. x \<le> arr ! i) (take (Suc i) arr))
                 + length (filter (\<lambda>x. x \<le> arr ! i) (drop (Suc i) arr))"
    by (metis append_take_drop_id filter_append length_append)
  ultimately show ?thesis using assms(2) by simp
qed

lemma count_below_prefix:
  fixes arr :: "'a::linorder list"
  assumes "sorted arr" and "i < length arr" and "u < arr ! i"
  shows "length (filter (\<lambda>x. x \<le> u) arr) \<le> i"
proof -
  have "\<forall>x \<in> set (drop i arr). \<not> x \<le> u"
  proof
    fix x assume "x \<in> set (drop i arr)"
    then obtain j where "j < length arr - i" "x = arr ! (i + j)"
      by (auto simp: in_set_conv_nth)
    with assms have "arr ! i \<le> x" by (simp add: sorted_nth_mono)
    with assms(3) show "\<not> x \<le> u" by simp
  qed
  then have "filter (\<lambda>x. x \<le> u) (drop i arr) = []" by (simp add: filter_empty_conv)
  moreover have "length (filter (\<lambda>x. x \<le> u) arr) =
                 length (filter (\<lambda>x. x \<le> u) (take i arr))
                 + length (filter (\<lambda>x. x \<le> u) (drop i arr))"
    by (metis append_take_drop_id filter_append length_append)
  moreover have "length (filter (\<lambda>x. x \<le> u) (take i arr)) \<le> i"
    by (rule order_trans [OF length_filter_le]) simp
  ultimately show ?thesis by simp
qed

lemma nearest_rank:
  fixes arr :: "'a::linorder list" and p :: rat
  assumes "sorted arr" and "arr \<noteq> []" and "0 < p" and "p \<le> 100"
  defines "i \<equiv> nat (max 0 (\<lceil>of_nat (length arr) * p / 100\<rceil> - 1))"
  shows "i < length arr \<and>
         of_nat (length arr) * p \<le> of_nat (length (filter (\<lambda>x. x \<le> arr ! i) arr)) * 100 \<and>
         (\<forall>u. u < arr ! i \<longrightarrow>
              of_nat (length (filter (\<lambda>x. x \<le> u) arr)) * 100 < of_nat (length arr) * p)"
proof -
  let ?n = "length arr"
  let ?q = "of_nat ?n * p / 100 :: rat"
  have n: "0 < ?n" using assms(2) by simp
  have "?q \<le> of_nat ?n"
  proof -
    have "of_nat ?n * p \<le> (of_nat ?n :: rat) * 100"
      using assms(4) by (intro mult_left_mono) simp_all
    then show ?thesis by simp
  qed
  then have up: "\<lceil>?q\<rceil> \<le> int ?n" by (simp add: ceiling_le_iff)
  have "0 < ?q" using n assms(3) by simp
  then have lo: "1 \<le> \<lceil>?q\<rceil>" by simp
  have i: "int i = \<lceil>?q\<rceil> - 1" unfolding i_def using lo by simp
  have lt: "i < ?n" using i up by linarith
  have c1: "?q \<le> of_int \<lceil>?q\<rceil>" by (rule le_of_int_ceiling)
  have c2: "of_int \<lceil>?q\<rceil> - 1 < ?q" using ceiling_correct [of ?q] by simp
  have si: "(of_nat (Suc i) :: rat) = of_int \<lceil>?q\<rceil>"
    using i by (metis add.commute diff_add_cancel of_int_of_nat_eq of_nat_Suc of_int_add of_int_1)
  have a: "of_nat ?n * p \<le> of_nat (length (filter (\<lambda>x. x \<le> arr ! i) arr)) * 100"
  proof -
    have "(of_nat (Suc i) :: rat) \<le> of_nat (length (filter (\<lambda>x. x \<le> arr ! i) arr))"
      using count_le_prefix [OF assms(1) lt] by (simp only: of_nat_le_iff)
    with c1 si have "?q \<le> of_nat (length (filter (\<lambda>x. x \<le> arr ! i) arr))" by linarith
    then have "?q * 100 \<le> of_nat (length (filter (\<lambda>x. x \<le> arr ! i) arr)) * 100"
      by (intro mult_right_mono) simp_all
    then show ?thesis by simp
  qed
  have b: "of_nat (length (filter (\<lambda>x. x \<le> u) arr)) * 100 < of_nat ?n * p" if "u < arr ! i" for u
  proof -
    have "(of_nat (length (filter (\<lambda>x. x \<le> u) arr)) :: rat) \<le> of_nat i"
      using count_below_prefix [OF assms(1) lt that] by (simp only: of_nat_le_iff)
    moreover have "(of_nat i :: rat) = of_int \<lceil>?q\<rceil> - 1" using si by simp
    ultimately have "of_nat (length (filter (\<lambda>x. x \<le> u) arr)) < ?q" using c2 by linarith
    then have "of_nat (length (filter (\<lambda>x. x \<le> u) arr)) * 100 < ?q * 100"
      by (intro mult_strict_right_mono) simp_all
    then show ?thesis by simp
  qed
  from lt a b show ?thesis by blast
qed

lemma percentile_defined:
  assumes "arr \<noteq> []" and "p \<le> 100"
  shows "percentile arr p = Some (arr ! nat (max 0 (\<lceil>of_nat (length arr) * p / 100\<rceil> - 1)))"
  using assms(1) js_index_percentile [OF assms]
  by (simp add: percentile_def Let_def)

text \<open>
  Claim C7. Both percentile helpers, on a non-empty array of length \<open>N\<close> and a percentile
  \<open>p\<close> of at most 100, return the element at index \<open>max(0, ceil(N * p / 100) - 1)\<close>, which
  is in range. On a sorted array and for a positive \<open>p\<close> this is the nearest-rank
  percentile: at least \<open>p\<close> percent of the elements are at most the value returned, and
  fewer than \<open>p\<close> percent are at most any smaller value.
\<close>

theorem C7_percentile_nearest_rank:
  assumes "lead \<noteq> []" and "trials \<noteq> []" and "p \<le> 100"
  defines "i \<equiv> nat (max 0 (\<lceil>of_nat (length lead) * p / 100\<rceil> - 1))"
    and "j \<equiv> nat (max 0 (\<lceil>of_nat (length trials) * p / 100\<rceil> - 1))"
  shows "i < length lead \<and> percentile lead p = Some (lead ! i) \<and>
         j < length trials \<and> percentile_mc trials p = Some (trials ! j) \<and>
         (0 < p \<and> sorted lead \<longrightarrow>
            of_nat (length lead) * p \<le> of_nat (length (filter (\<lambda>x. x \<le> lead ! i) lead)) * 100 \<and>
            (\<forall>u. u < lead ! i \<longrightarrow>
                 of_nat (length (filter (\<lambda>x. x \<le> u) lead)) * 100 < of_nat (length lead) * p)) \<and>
         (0 < p \<and> sorted trials \<longrightarrow>
            of_nat (length trials) * p \<le> of_nat (length (filter (\<lambda>x. x \<le> trials ! j) trials)) * 100 \<and>
            (\<forall>u. u < trials ! j \<longrightarrow>
                 of_nat (length (filter (\<lambda>x. x \<le> u) trials)) * 100 < of_nat (length trials) * p))"
proof -
  have a: "percentile lead p = Some (lead ! i)"
    unfolding i_def using assms(1,3) by (rule percentile_defined)
  have b: "j < length trials \<and> percentile_mc trials p = Some (trials ! j)"
    unfolding j_def using assms(2,3) by (rule percentile_mc_defined)
  have c: "i < length lead"
    using percentile_index [OF assms(1,3)] unfolding i_def by blast
  have d: "of_nat (length lead) * p \<le> of_nat (length (filter (\<lambda>x. x \<le> lead ! i) lead)) * 100 \<and>
            (\<forall>u. u < lead ! i \<longrightarrow>
                 of_nat (length (filter (\<lambda>x. x \<le> u) lead)) * 100 < of_nat (length lead) * p)"
    if "0 < p" "sorted lead"
    using nearest_rank [OF that(2) assms(1) that(1) assms(3)] unfolding i_def by blast
  have e: "of_nat (length trials) * p \<le> of_nat (length (filter (\<lambda>x. x \<le> trials ! j) trials)) * 100 \<and>
            (\<forall>u. u < trials ! j \<longrightarrow>
                 of_nat (length (filter (\<lambda>x. x \<le> u) trials)) * 100 < of_nat (length trials) * p)"
    if "0 < p" "sorted trials"
    using nearest_rank [OF that(2) assms(2) that(1) assms(3)] unfolding j_def by blast
  from a b c d e show ?thesis by blast
qed

theorem C7_percentile_nearest_rank_witness:
  "percentile [1, 2, 3, 4, 5, 6, 7, 8, 9, 10] 50 = Some 5 \<and>
   percentile [1, 2, 3, 4, 5, 6, 7, 8, 9, 10] 85 = Some 9 \<and>
   percentile_mc [1, 2, 3, 4, 5, 6, 7, 8, 9, 10] 50 = Some 5 \<and>
   percentile_mc [1, 2, 3, 4, 5, 6, 7, 8, 9, 10] 85 = Some 9"
proof -
  let ?l = "[1, 2, 3, 4, 5, 6, 7, 8, 9, 10] :: int list"
  let ?t = "[1, 2, 3, 4, 5, 6, 7, 8, 9, 10] :: nat list"
  have h: "?l \<noteq> []" "?t \<noteq> []" by simp_all
  have p: "(50::rat) \<le> 100" "(85::rat) \<le> 100" by simp_all
  have i50: "nat (max 0 (\<lceil>of_nat (length ?l) * (50::rat) / 100\<rceil> - 1)) = 4" by code_simp
  have i85: "nat (max 0 (\<lceil>of_nat (length ?l) * (85::rat) / 100\<rceil> - 1)) = 8" by code_simp
  have j50: "nat (max 0 (\<lceil>of_nat (length ?t) * (50::rat) / 100\<rceil> - 1)) = 4" by code_simp
  have j85: "nat (max 0 (\<lceil>of_nat (length ?t) * (85::rat) / 100\<rceil> - 1)) = 8" by code_simp
  have n: "?l ! 4 = 5" "?l ! 8 = 9" "?t ! 4 = 5" "?t ! 8 = 9" by simp_all
  from C7_percentile_nearest_rank [OF h p(1)] C7_percentile_nearest_rank [OF h p(2)]
  show ?thesis unfolding i50 i85 j50 j85 n by blast
qed

section \<open>Properties of the lead-time histogram and of the aggregation\<close>

lemma histogram_sum:
  "\<forall>d \<in> set xs. d \<le> maxDays \<Longrightarrow>
   sum_list (map hb_count (histogram_loop start maxDays xs)) = length (filter (\<lambda>d. start \<le> d) xs)"
proof (induction start maxDays xs rule: histogram_loop.induct)
  case (1 start maxDays xs)
  show ?case
  proof (cases "start \<le> maxDays")
    case True
    have split: "length (filter (\<lambda>d. start \<le> d) xs) =
                 length (filter (\<lambda>d. start \<le> d \<and> d < start + 7) xs)
                 + length (filter (\<lambda>d. start + 7 \<le> d) xs)"
      by (induction xs) auto
    from "1.IH" [OF True refl refl "1.prems"] True split
    show ?thesis
      by (subst histogram_loop.simps) (simp add: Let_def)
  next
    case False
    with "1.prems" have "filter (\<lambda>d. start \<le> d) xs = []"
      by (auto simp: filter_empty_conv)
    with False show ?thesis
      by (subst histogram_loop.simps) simp
  qed
qed

lemma histogram_one_bucket:
  "d \<le> maxDays \<Longrightarrow>
   length (filter (\<lambda>b. hb_start b \<le> d \<and> d < hb_end b) (histogram_loop start maxDays xs)) =
     (if start \<le> d then 1 else 0)"
proof (induction start maxDays xs rule: histogram_loop.induct)
  case (1 start maxDays xs)
  show ?case
  proof (cases "start \<le> maxDays")
    case True
    from "1.IH" [OF True refl refl "1.prems"] True
    show ?thesis
      by (subst histogram_loop.simps) (auto simp: Let_def)
  next
    case False
    with "1.prems" show ?thesis
      by (subst histogram_loop.simps) simp
  qed
qed

lemma sorted_le_last:
  fixes xs :: "'a::linorder list"
  assumes "sorted xs" and "x \<in> set xs"
  shows "x \<le> last xs"
proof -
  from assms(2) obtain i where i: "i < length xs" "x = xs ! i" by (auto simp: in_set_conv_nth)
  then have ne: "xs \<noteq> []" by auto
  have "xs ! i \<le> xs ! (length xs - 1)"
    using assms(1) i(1) by (intro sorted_nth_mono) simp_all
  with i ne show ?thesis by (simp add: last_conv_nth)
qed

lemma lead_details_length:
  "length (lead_details es) =
     length (filter (\<lambda>e. case lead_time e of Some d \<Rightarrow> 0 \<le> d | None \<Rightarrow> False) es)"
  by (induction es) (auto split: option.splits)

lemma lead_details_nonneg: "x \<in> set (lead_details es) \<Longrightarrow> 0 \<le> leadTimeDays x"
  by (induction es) (auto split: option.splits if_splits)

lemma lead_details_mem:
  "e \<in> set es \<Longrightarrow> lead_time e = Some d \<Longrightarrow> 0 \<le> d \<Longrightarrow> d \<in> leadTimeDays ` set (lead_details es)"
  by (induction es) (auto split: option.splits)

text \<open>
  Claim C8. The counts of the histogram that \<open>calculateEpicLeadCycleTime\<close> builds add up
  to the number of input epics that are resolved (status category \<open>done\<close>, with a
  resolution date and a creation date) and whose rounded lead time is a number and not
  negative; and each such lead time lies in exactly one bucket of the histogram.
\<close>

theorem C8_histogram_conserves:
  "sum_list (map hb_count (histogram (calculateEpicLeadCycleTime epics))) =
     length (filter (\<lambda>e. e_statusCategory e = ''done'' \<and> truthy_date (e_resolutionDate e) \<and>
                          truthy_date (e_created e) \<and>
                          (case lead_time e of Some d \<Rightarrow> 0 \<le> d | None \<Rightarrow> False)) epics) \<and>
   (\<forall>e \<in> set epics. \<forall>d.
      e_statusCategory e = ''done'' \<and> truthy_date (e_resolutionDate e) \<and> truthy_date (e_created e) \<and>
      lead_time e = Some d \<and> 0 \<le> d \<longrightarrow>
      length (filter (\<lambda>b. hb_start b \<le> d \<and> d < hb_end b)
                (histogram (calculateEpicLeadCycleTime epics))) = 1)"
proof -
  let ?res = "filter is_resolved epics"
  let ?lt = "map leadTimeDays (lead_details ?res)"
  let ?s = "sort ?lt"
  have hist: "histogram (calculateEpicLeadCycleTime epics) =
                (if length ?s > 0 then histogram_loop 0 (last ?s) ?s else [])"
    unfolding calculateEpicLeadCycleTime_def Let_def by (simp only: lead_report.select_convs)
  have hist_ne: "histogram (calculateEpicLeadCycleTime epics) = histogram_loop 0 (last ?s) ?s"
    if "?s \<noteq> []"
  proof -
    from that have "length ?s > 0" by (rule length_greater_0_conv [THEN iffD2])
    then show ?thesis unfolding hist by (simp only: if_True)
  qed
  have hist_e: "histogram (calculateEpicLeadCycleTime epics) = []" if "?s = []"
    unfolding hist that by simp
  have nonneg: "\<forall>d \<in> set ?s. 0 \<le> d"
    using lead_details_nonneg by auto
  have len: "length ?s = length (filter (\<lambda>e. is_resolved e \<and>
                 (case lead_time e of Some d \<Rightarrow> 0 \<le> d | None \<Rightarrow> False)) epics)"
    by (simp add: lead_details_length conj_commute)
  have le_last: "\<forall>d \<in> set ?s. d \<le> last ?s" if "?s \<noteq> []"
    using sorted_le_last [of ?s] by simp
  have a: "sum_list (map hb_count (histogram (calculateEpicLeadCycleTime epics))) = length ?s"
  proof (cases "?s = []")
    case True
    then show ?thesis unfolding hist_e [OF True] by simp
  next
    case False
    have "filter (\<lambda>d. 0 \<le> d) ?s = ?s" using nonneg by (simp add: filter_id_conv)
    with histogram_sum [OF le_last [OF False], of 0]
    show ?thesis unfolding hist_ne [OF False] by simp
  qed
  have b: "length (filter (\<lambda>b. hb_start b \<le> d \<and> d < hb_end b)
                (histogram (calculateEpicLeadCycleTime epics))) = 1"
    if "e \<in> set epics" "is_resolved e" "lead_time e = Some d" "0 \<le> d" for e d
  proof -
    from that have "e \<in> set ?res" by simp
    from lead_details_mem [OF this that(3,4)] have d: "d \<in> set ?s" by simp
    then have ne: "?s \<noteq> []" by (metis empty_iff empty_set)
    from le_last [OF ne] d have "d \<le> last ?s" by blast
    from histogram_one_bucket [OF this, of 0 ?s] that(4)
    show ?thesis unfolding hist_ne [OF ne] by simp
  qed
  from a len b show ?thesis
    unfolding is_resolved_def by (simp add: conj_ac) 
qed

theorem C8_histogram_conserves_witness:
  "sum_list (map hb_count (histogram (calculateEpicLeadCycleTime ex_lead_epics))) = 3 \<and>
   length (filter (\<lambda>b. hb_start b \<le> 7 \<and> 7 < hb_end b)
             (histogram (calculateEpicLeadCycleTime ex_lead_epics))) = 1"
proof -
  let ?e = "ex_lead_epic ''E-2'' ''done'' (DateMs 0) (DateMs (7 * 86400000))"
  have n: "length (filter (\<lambda>e. e_statusCategory e = ''done'' \<and> truthy_date (e_resolutionDate e) \<and>
                          truthy_date (e_created e) \<and>
                          (case lead_time e of Some d \<Rightarrow> 0 \<le> d | None \<Rightarrow> False)) ex_lead_epics) = 3"
    by code_simp
  have m: "?e \<in> set ex_lead_epics" by (simp add: ex_lead_epics_def)
  have h: "e_statusCategory ?e = ''done'' \<and> truthy_date (e_resolutionDate ?e) \<and>
           truthy_date (e_created ?e) \<and> lead_time ?e = Some 7 \<and> (0::int) \<le> 7"
    by code_simp
  from C8_histogram_conserves [of ex_lead_epics] n m h show ?thesis by auto
qed

























section \<open>Properties of the work-in-progress report\<close>

text \<open>
  Claim C10 fails on the code. One in-progress epic whose assignee is named \<open>__proto__\<close>:
  \<open>totalWIP\<close> is 1 and \<open>wipAge\<close> has one entry, but \<open>wipByAssignee\<close> is empty, so its
  counts add up to 0. The counter is a plain object: reading \<open>__proto__\<close> yields
  \<open>Object.prototype\<close>, and the assignment of the string that \<open>+ 1\<close> makes of it is
  ignored. \<open>calculateThroughput\<close> counts with a \<open>Map\<close>, which has no such keys.
\<close>

theorem C10_wip_proto_not_counted:
  "e_statusCategory (ex_wip_epic ''E-1'' ''__proto__'') = ''indeterminate'' \<and>
   totalWIP (calculateWIPMetrics 86400000 [ex_wip_epic ''E-1'' ''__proto__''] None) = 1 \<and>
   length (wipAge (calculateWIPMetrics 86400000 [ex_wip_epic ''E-1'' ''__proto__''] None)) = 1 \<and>
   wipByAssignee (calculateWIPMetrics 86400000 [ex_wip_epic ''E-1'' ''__proto__''] None) = [] \<and>
   wipByInitiative (calculateWIPMetrics 86400000 [ex_wip_epic ''E-1'' ''__proto__''] None) =
     [\<lparr>nc_name = ''Unlinked'', nc_count = JNum 1\<rparr>]"
  by code_simp

lemma update_sum_new:
  "map_of obj k = None \<Longrightarrow>
   sum_list (map (\<lambda>p. count_number (snd p)) (AList.update k v obj)) =
     sum_list (map (\<lambda>p. count_number (snd p)) obj) + count_number v"
  by (induction obj) (auto split: if_splits)

lemma update_sum_old:
  "map_of obj k = Some (JNum n) \<Longrightarrow>
   sum_list (map (\<lambda>p. count_number (snd p)) (AList.update k (JNum (n + 1)) obj)) =
     sum_list (map (\<lambda>p. count_number (snd p)) obj) + 1"
  by (induction obj) (auto split: if_splits)

lemma update_numeric: "numeric obj \<Longrightarrow> numeric (AList.update k (JNum n) obj)"
  unfolding numeric_def by (induction obj) auto

lemma numeric_lookup: "numeric obj \<Longrightarrow> map_of obj k \<noteq> Some JText"
  unfolding numeric_def by (induction obj) (auto split: if_splits)

lemma bump_safe:
  assumes "k \<notin> set object_prototype_members" and "numeric obj"
  shows "numeric (bump obj k) \<and>
         sum_list (map (\<lambda>p. count_number (snd p)) (bump obj k)) =
           sum_list (map (\<lambda>p. count_number (snd p)) obj) + 1"
proof (cases "map_of obj k")
  case None
  have "k \<noteq> ''__proto__''" using assms(1) by (auto simp: object_prototype_members_def)
  with None assms show ?thesis
    by (simp add: bump_def update_sum_new update_numeric)
next
  case (Some v)
  with numeric_lookup [OF assms(2), of k] obtain n where "v = JNum n" by (cases v) auto
  with Some assms(2) update_sum_old [of obj k n] show ?thesis
    by (simp add: bump_def update_numeric)
qed

lemma insort_key_sum:
  "sum_list (map f (insort_key g x xs)) = f x + sum_list (map f xs)"
  for f :: "'a \<Rightarrow> nat"
  by (induction xs) auto

lemma sort_key_sum: "sum_list (map f (sort_key g xs)) = sum_list (map f xs)"
  for f :: "'a \<Rightarrow> nat"
  by (induction xs) (simp_all add: insort_key_sum)

lemma partition_sum:
  "sum_list (map f (filter P xs)) + sum_list (map f (filter (\<lambda>x. \<not> P x) xs)) = sum_list (map f xs)"
  for f :: "'a \<Rightarrow> nat"
  by (induction xs) auto

lemma Object_entries_sum:
  "sum_list (map f (Object_entries obj)) = sum_list (map f obj)"
  for f :: "string \<times> jsval \<Rightarrow> nat"
  using partition_sum [of f "\<lambda>p. array_index (fst p) \<noteq> None" obj]
  by (simp add: Object_entries_def sort_key_sum)

lemma js_insert_sum:
  "sum_list (map f (js_insert cmp x xs)) = f x + sum_list (map f xs)"
  for f :: "'a \<Rightarrow> nat"
  by (induction xs) auto

lemma js_sort_sum: "sum_list (map f (js_sort cmp xs)) = sum_list (map f xs)"
  for f :: "'a \<Rightarrow> nat"
  unfolding js_sort_def by (induction xs) (simp_all add: js_insert_sum)

lemma js_insert_length: "length (js_insert cmp x xs) = Suc (length xs)"
  by (induction xs) auto

lemma js_sort_length: "length (js_sort cmp xs) = length xs"
  unfolding js_sort_def by (induction xs) (simp_all add: js_insert_length)

lemma js_insert_set: "set (js_insert cmp x xs) = insert x (set xs)"
  by (induction xs) auto

lemma js_sort_set: "set (js_sort cmp xs) = set xs"
  unfolding js_sort_def by (induction xs) (simp_all add: js_insert_set)

lemma Object_entries_set: "set (Object_entries obj) = set obj"
  by (auto simp: Object_entries_def)

lemma wip_counts_safe:
  assumes "\<forall>e \<in> set es. assignee_of e \<notin> set object_prototype_members \<and>
                          initiative_name_of initiatives e \<notin> set object_prototype_members"
    and "numeric a" and "numeric i"
  shows "numeric (fst (foldl (\<lambda>(byAssignee, byInitiative) e.
              (bump byAssignee (assignee_of e), bump byInitiative (initiative_name_of initiatives e)))
            (a, i) es)) \<and>
         numeric (snd (foldl (\<lambda>(byAssignee, byInitiative) e.
              (bump byAssignee (assignee_of e), bump byInitiative (initiative_name_of initiatives e)))
            (a, i) es)) \<and>
         sum_list (map (\<lambda>p. count_number (snd p)) (fst (foldl (\<lambda>(byAssignee, byInitiative) e.
              (bump byAssignee (assignee_of e), bump byInitiative (initiative_name_of initiatives e)))
            (a, i) es))) = sum_list (map (\<lambda>p. count_number (snd p)) a) + length es \<and>
         sum_list (map (\<lambda>p. count_number (snd p)) (snd (foldl (\<lambda>(byAssignee, byInitiative) e.
              (bump byAssignee (assignee_of e), bump byInitiative (initiative_name_of initiatives e)))
            (a, i) es))) = sum_list (map (\<lambda>p. count_number (snd p)) i) + length es"
  using assms
proof (induction es arbitrary: a i)
  case Nil
  then show ?case by simp
next
  case (Cons e es)
  from Cons.prems have safe: "assignee_of e \<notin> set object_prototype_members"
    "initiative_name_of initiatives e \<notin> set object_prototype_members"
    and rest: "\<forall>e \<in> set es. assignee_of e \<notin> set object_prototype_members \<and>
                          initiative_name_of initiatives e \<notin> set object_prototype_members"
    by simp_all
  note ba = bump_safe [OF safe(1) Cons.prems(2)]
  note bi = bump_safe [OF safe(2) Cons.prems(3)]
  from Cons.IH [OF rest ba [THEN conjunct1] bi [THEN conjunct1]] ba bi
  show ?case by simp
qed

text \<open>
  For every other input the counts are conserved: when no in-progress epic has an assignee
  name or an initiative name that is a member of \<open>Object.prototype\<close>, all counts are
  numbers, and \<open>totalWIP\<close>, the length of \<open>wipAge\<close> and the two sums of counts are equal
  to the number of in-progress epics.
\<close>

theorem wip_conserved_for_safe_names:
  fixes now :: int
  assumes "\<forall>e \<in> set epics. e_statusCategory e = ''indeterminate'' \<longrightarrow>
             assignee_of e \<notin> set object_prototype_members \<and>
             initiative_name_of initiatives e \<notin> set object_prototype_members"
  defines "r \<equiv> calculateWIPMetrics now epics initiatives"
  shows "totalWIP r = length (filter (\<lambda>e. e_statusCategory e = ''indeterminate'') epics) \<and>
         length (wipAge r) = totalWIP r \<and>
         sum_list (map (\<lambda>c. count_number (nc_count c)) (wipByAssignee r)) = totalWIP r \<and>
         sum_list (map (\<lambda>c. count_number (nc_count c)) (wipByInitiative r)) = totalWIP r \<and>
         (\<forall>c \<in> set (wipByAssignee r) \<union> set (wipByInitiative r). nc_count c \<noteq> JText)"
proof -
  let ?wip = "filter (\<lambda>e. e_statusCategory e = ''indeterminate'') epics"
  let ?c = "wip_counts initiatives ?wip"
  let ?ent = "\<lambda>obj. js_sort count_cmp
                (map (\<lambda>(name, count). \<lparr>nc_name = name, nc_count = count\<rparr>) (Object_entries obj))"
  have safe: "\<forall>e \<in> set ?wip. assignee_of e \<notin> set object_prototype_members \<and>
                          initiative_name_of initiatives e \<notin> set object_prototype_members"
    using assms(1) by simp
  have e: "numeric []" by (simp add: numeric_def)
  from wip_counts_safe [OF safe e e]
  have c: "numeric (fst ?c)" "numeric (snd ?c)"
          "sum_list (map (\<lambda>p. count_number (snd p)) (fst ?c)) = length ?wip"
          "sum_list (map (\<lambda>p. count_number (snd p)) (snd ?c)) = length ?wip"
    unfolding wip_counts_def by simp_all
  have r: "totalWIP r = length ?wip" "wipAge r = js_sort age_cmp (map (age_of now) ?wip)"
          "wipByAssignee r = ?ent (fst ?c)" "wipByInitiative r = ?ent (snd ?c)"
    unfolding r_def calculateWIPMetrics_def Let_def by (simp_all add: split_def)
  have s: "sum_list (map (\<lambda>c. count_number (nc_count c)) (?ent obj)) =
           sum_list (map (\<lambda>p. count_number (snd p)) obj)" for obj
    using Object_entries_sum [of "\<lambda>p. count_number (snd p)" obj]
    by (simp add: js_sort_sum comp_def split_def)
  have t: "\<forall>c \<in> set (?ent obj). nc_count c \<noteq> JText" if "numeric obj" for obj
    using that by (auto simp: js_sort_set Object_entries_set numeric_def)
  from c r s t show ?thesis
    by (simp add: js_sort_length ball_Un)
qed

end
